theory Spec2Isabelle
  imports Main "HOL-Library.Char_ord" "HOL-Library.List_Lexorder" "HOL-Library.Multiset"
begin

section \<open>Strings and regular expressions of the JavaScript runtime\<close>

text \<open>
  A JavaScript string is a sequence of UTF-16 code units. Here it is a \<open>string\<close>
  (a list of 8-bit characters), that is, the strings whose code units are below 256;
  \<open>length\<close> is the JavaScript \<open>.length\<close>. A value that may be absent from a JSON
  body (\<open>undefined\<close>) is a \<open>string option\<close>, \<open>None\<close> being \<open>undefined\<close>.
  The order on strings (\<open>HOL-Library.List_Lexorder\<close> over \<open>HOL-Library.Char_ord\<close>)
  is the order of code units that the operator \<open><\<close> and the default
  \<open>Array.prototype.sort\<close> use.
\<close>

text \<open>The characters \<open>\s\<close> matches and \<open>trim\<close> strips, among the code units below 256:
  TAB, LF, VT, FF, CR, SPACE and NBSP.\<close>

definition isSpace :: "char \<Rightarrow> bool" where
  "isSpace c = (c \<in> set [CHR 0x09, CHR 0x0A, CHR 0x0B, CHR 0x0C, CHR 0x0D, CHR 0x20, CHR 0xA0])"

text \<open>\<open>\d\<close> and \<open>[0-9]\<close>.\<close>

definition isDigit :: "char \<Rightarrow> bool" where
  "isDigit c = (c \<in> set ''0123456789'')"

text \<open>\<open>String.prototype.trim\<close>.\<close>

definition trim :: "string \<Rightarrow> string" where
  "trim s = rev (dropWhile isSpace (rev (dropWhile isSpace s)))"

text \<open>
  The regular expressions of the source use character classes, concatenation, \<open>?\<close>,
  \<open>+\<close> and \<open>{n}\<close>. \<open>rmatch r s\<close> lists, in the order a backtracking matcher tries them
  (greedy first), the rests of \<open>s\<close> after a prefix that \<open>r\<close> matches. Every pattern of
  the source is anchored with \<open>^\<close> and \<open>$\<close> and has no flag, so \<open>RegExp.prototype.test\<close>
  holds when some way of matching leaves the empty rest.
\<close>

datatype rexp =
    Eps
  | Class "char \<Rightarrow> bool"
  | Seq rexp rexp
  | Opt rexp
  | Plus rexp

function rmatch :: "rexp \<Rightarrow> string \<Rightarrow> string list" where
  "rmatch Eps s = [s]"
| "rmatch (Class P) s = (case s of [] \<Rightarrow> [] | c # cs \<Rightarrow> if P c then [cs] else [])"
| "rmatch (Seq a b) s = concat (map (rmatch b) (rmatch a s))"
| "rmatch (Opt a) s = rmatch a s @ [s]"
| "rmatch (Plus a) s =
     concat (map (\<lambda>t. (if length t < length s then rmatch (Plus a) t else []) @ [t]) (rmatch a s))"
  by pat_completeness auto
termination
  by (relation "measure size <*lex*> measure length") auto

fun times :: "nat \<Rightarrow> rexp \<Rightarrow> rexp" where
  "times 0 r = Eps"
| "times (Suc n) r = Seq r (times n r)"

definition test :: "rexp \<Rightarrow> string \<Rightarrow> bool" where
  "test r s = ([] \<in> set (rmatch r s))"

text \<open>\<open>[^\s@]\<close>, \<open>[-.\s]\<close> and a single character.\<close>

definition notSpaceAt :: "char \<Rightarrow> bool" where
  "notSpaceAt c = (\<not> isSpace c \<and> c \<noteq> CHR ''@'')"

definition isSep :: "char \<Rightarrow> bool" where
  "isSep c = (c = CHR ''-'' \<or> c = CHR ''.'' \<or> isSpace c)"

definition lit :: "char \<Rightarrow> rexp" where
  "lit x = Class (\<lambda>c. c = x)"

text \<open>\<open>/^[^\s@]+@[^\s@]+\.[^\s@]+$/\<close>\<close>

definition emailRegex :: rexp where
  "emailRegex =
     Seq (Plus (Class notSpaceAt)) (Seq (lit CHR ''@'')
       (Seq (Plus (Class notSpaceAt)) (Seq (lit CHR ''.'') (Plus (Class notSpaceAt)))))"

text \<open>\<open>/^(\+?1?[-.\s]?)?\(?([0-9]{3})\)?[-.\s]?([0-9]{3})[-.\s]?([0-9]{4})$/\<close>\<close>

definition phoneRegex :: rexp where
  "phoneRegex =
     Seq (Opt (Seq (Opt (lit CHR ''+'')) (Seq (Opt (lit CHR ''1'')) (Opt (Class isSep)))))
    (Seq (Opt (lit CHR ''(''))
    (Seq (times 3 (Class isDigit))
    (Seq (Opt (lit CHR '')''))
    (Seq (Opt (Class isSep))
    (Seq (times 3 (Class isDigit))
    (Seq (Opt (Class isSep))
         (times 4 (Class isDigit))))))))"

section \<open>Validation functions\<close>

text \<open>
  \<open>!v || !v.trim()\<close> for a value that is a string or \<open>undefined\<close>: the value is
  \<open>undefined\<close>, the empty string, or all whitespace.
\<close>

definition missing :: "string option \<Rightarrow> bool" where
  "missing v = (case v of None \<Rightarrow> True | Some s \<Rightarrow> s = [] \<or> trim s = [])"

text \<open>Each validator returns \<open>None\<close> for the source's \<open>null\<close> and the message otherwise.\<close>

definition validateEmail :: "string option \<Rightarrow> string option" where
  "validateEmail email =
     (if missing email then Some ''Email is required''
      else case email of
        None \<Rightarrow> Some ''Email is required''
      | Some e \<Rightarrow> if test emailRegex e then None else Some ''Please enter a valid email address'')"

definition validatePhone :: "string option \<Rightarrow> string option" where
  "validatePhone phone =
     (if missing phone then Some ''Phone number is required''
      else case phone of
        None \<Rightarrow> Some ''Phone number is required''
      | Some p \<Rightarrow>
          let cleanedPhone = filter (\<lambda>c. \<not> (isSpace c \<or> c = CHR ''-'' \<or> c = CHR ''('' \<or> c = CHR '')'')) p;
              digitsOnly = filter isDigit cleanedPhone
          in if length digitsOnly < 10 then Some ''Phone number must have at least 10 digits''
             else if test phoneRegex p then None
             else Some ''Please enter a valid phone number (e.g., +1-555-123-4567 or 555-123-4567)'')"

definition validateAddress :: "string option \<Rightarrow> string option" where
  "validateAddress address =
     (case address of
        None \<Rightarrow> None
      | Some a \<Rightarrow> if a \<noteq> [] \<and> length (trim a) > 200
                  then Some ''Address must be 200 characters or less'' else None)"

text \<open>The truth value of a string or \<open>undefined\<close>: false for \<open>undefined\<close> and \<open>""\<close>.\<close>

definition truthy :: "string option \<Rightarrow> bool" where
  "truthy v = (case v of None \<Rightarrow> False | Some s \<Rightarrow> s \<noteq> [])"

text \<open>
  The field validators of the server that stores contacts in MySQL: no trimming and no
  count of digits.
\<close>

definition validateEmail_db :: "string option \<Rightarrow> string option" where
  "validateEmail_db email =
     (if \<not> truthy email then Some ''Email is required''
      else case email of
        None \<Rightarrow> Some ''Email is required''
      | Some e \<Rightarrow> if test emailRegex e then None else Some ''Invalid email'')"

definition validatePhone_db :: "string option \<Rightarrow> string option" where
  "validatePhone_db phone =
     (if \<not> truthy phone then Some ''Phone is required''
      else case phone of
        None \<Rightarrow> Some ''Phone is required''
      | Some p \<Rightarrow> if test phoneRegex p then None else Some ''Invalid phone'')"

definition validateAddress_db :: "string option \<Rightarrow> string option" where
  "validateAddress_db address =
     (case address of
        None \<Rightarrow> None
      | Some a \<Rightarrow> if a \<noteq> [] \<and> length a > 200
                  then Some ''Address must be 200 characters or less'' else None)"

section \<open>Contacts, validation reports and responses\<close>

text \<open>
  A contact object, as a JSON request body and as a stored record: six properties, each
  a string or absent. (The property \<open>id\<close> is \<open>id'\<close> here.) A property that is
  \<open>null\<close> passes every test of the handlers as an absent one does. A property of
  another JSON type (a number, an array) makes \<open>trim\<close> raise a TypeError, which the
  error middleware answers with 500; such bodies are outside this theory.
\<close>

record contact =
  id' :: "string option"
  firstName :: "string option"
  lastName :: "string option"
  phone :: "string option"
  address :: "string option"
  email :: "string option"

text \<open>
  A JavaScript \<open>Map\<close> with string keys, and an object used as a dictionary: the entries
  in insertion order, one per key. \<open>Map_set\<close> overwrites the value of a key that is
  present, in place, and appends a new key at the end.
\<close>

type_synonym 'v jsmap = "(string \<times> 'v) list"

definition Map_has :: "'v jsmap \<Rightarrow> string \<Rightarrow> bool" where
  "Map_has m k = (map_of m k \<noteq> None)"

definition Map_get :: "'v jsmap \<Rightarrow> string \<Rightarrow> 'v option" where
  "Map_get m k = map_of m k"

fun Map_set :: "'v jsmap \<Rightarrow> string \<Rightarrow> 'v \<Rightarrow> 'v jsmap" where
  "Map_set [] k v = [(k, v)]"
| "Map_set ((k', v') # m) k v = (if k' = k then (k', v) # m else (k', v') # Map_set m k v)"

definition Map_delete :: "'v jsmap \<Rightarrow> string \<Rightarrow> bool \<times> 'v jsmap" where
  "Map_delete m k = (Map_has m k, filter (\<lambda>e. fst e \<noteq> k) m)"

definition Map_keys :: "'v jsmap \<Rightarrow> string list" where
  "Map_keys m = map fst m"

definition Map_values :: "'v jsmap \<Rightarrow> 'v list" where
  "Map_values m = map snd m"

text \<open>The \<open>errors\<close> object of \<open>validateContact\<close>: property name to message.\<close>

type_synonym errors = "string jsmap"

text \<open>A response: the status code and the JSON body.\<close>

datatype body =
    Contacts "contact list"
  | ContactBody contact
  | Message string
  | Error string
  | ErrorDetails string errors
  | NoBody

type_synonym response = "nat \<times> body"

section \<open>The Map-backed server\<close>

text \<open>
  The state of the server is the module variable \<open>contacts\<close>, a \<open>Map\<close> from id to
  contact object. \<open>validateContact\<close> reads it for the duplicate check. The loader of
  test data at start-up and the route \<open>/performance\<close> write to the Map too; they are
  not part of this theory.
\<close>

definition validateContact :: "contact jsmap \<Rightarrow> contact \<Rightarrow> bool \<Rightarrow> errors" where
  "validateContact contacts contact isNewContact =
     (let errors = [];
          errors =
            (if missing (id' contact) then Map_set errors ''id'' ''ID is required''
             else case id' contact of
               None \<Rightarrow> Map_set errors ''id'' ''ID is required''
             | Some i \<Rightarrow>
                 if length (trim i) > 10
                 then Map_set errors ''id'' ''ID must be 10 characters or less''
                 else if isNewContact \<and> Map_has contacts (trim i)
                 then Map_set errors ''id'' ''ID already exists''
                 else errors);
          errors =
            (if missing (firstName contact)
             then Map_set errors ''firstName'' ''First name is required'' else errors);
          errors =
            (if missing (lastName contact)
             then Map_set errors ''lastName'' ''Last name is required'' else errors);
          emailError = validateEmail (email contact);
          errors = (case emailError of Some e \<Rightarrow> Map_set errors ''email'' e | None \<Rightarrow> errors);
          phoneError = validatePhone (phone contact);
          errors = (case phoneError of Some e \<Rightarrow> Map_set errors ''phone'' e | None \<Rightarrow> errors);
          addressError = validateAddress (address contact);
          errors = (case addressError of Some e \<Rightarrow> Map_set errors ''address'' e | None \<Rightarrow> errors)
      in errors)"

text \<open>
  \<open>GET /contacts\<close>: the values of the Map, sorted with the comparator
  \<open>(a, b) => a.id.localeCompare(b.id)\<close>. \<open>localeCompare\<close> is the collation of the
  runtime's locale, a parameter here. The sort of the runtime is stable, and for a
  comparator that is total and transitive every stable sort gives the same list;
  \<open>sortWith\<close> is the stable insertion sort. On a stored object without a string id the
  comparator raises a TypeError when the sort passes the object as its first argument,
  and the error middleware answers 500; the theory takes this answer for every store
  with such an object. No handler stores one.
\<close>

fun insertWith :: "('a \<Rightarrow> 'a \<Rightarrow> int) \<Rightarrow> 'a \<Rightarrow> 'a list \<Rightarrow> 'a list" where
  "insertWith cmp x [] = [x]"
| "insertWith cmp x (y # ys) = (if cmp x y \<le> 0 then x # y # ys else y # insertWith cmp x ys)"

definition sortWith :: "('a \<Rightarrow> 'a \<Rightarrow> int) \<Rightarrow> 'a list \<Rightarrow> 'a list" where
  "sortWith cmp xs = foldr (insertWith cmp) xs []"

definition compareById :: "(string \<Rightarrow> string \<Rightarrow> int) \<Rightarrow> contact \<Rightarrow> contact \<Rightarrow> int" where
  "compareById localeCompare a b =
     (case (id' a, id' b) of (Some x, Some y) \<Rightarrow> localeCompare x y | _ \<Rightarrow> 0)"

definition get_contacts ::
  "(string \<Rightarrow> string \<Rightarrow> int) \<Rightarrow> contact jsmap \<Rightarrow> response \<times> contact jsmap" where
  "get_contacts localeCompare contacts =
     (if list_all (\<lambda>c. id' c \<noteq> None) (Map_values contacts)
      then let sortedContacts = sortWith (compareById localeCompare) (Map_values contacts)
           in ((200, Contacts sortedContacts), contacts)
      else ((500, Error ''Internal server error''), contacts))"

text \<open>
  \<open>POST /contacts\<close>. The record stored is built from the six properties of the body, under
  the key \<open>id\<close> as sent. A body that passes validation has a string id, so the last
  branch is never taken.
\<close>

definition post_contacts :: "contact \<Rightarrow> contact jsmap \<Rightarrow> response \<times> contact jsmap" where
  "post_contacts reqBody contacts =
     (let validationErrors = validateContact contacts reqBody True
      in if length (Map_keys validationErrors) > 0
         then ((400, ErrorDetails ''Validation failed'' validationErrors), contacts)
         else let contact = \<lparr>id' = id' reqBody, firstName = firstName reqBody,
                    lastName = lastName reqBody, phone = phone reqBody,
                    address = address reqBody, email = email reqBody\<rparr>
              in case id' reqBody of
                   Some i \<Rightarrow> ((201, Message ''Contact added successfully''), Map_set contacts i contact)
                 | None \<Rightarrow> ((500, Error ''Internal server error''), contacts))"

text \<open>
  \<open>PUT /contacts/:id\<close>. \<open>contacts.get(id)\<close> returns the object the Map holds, not a copy:
  the five assignments change the stored record itself, and they come before the
  validation. Every entry of the Map holds an object of its own (each \<open>set\<close> stores a
  fresh object literal), so the assignments are the update of this one entry,
  \<open>Map_set contacts idP contact\<close>; the Map keeps them whatever the validation says.
  The route parameter \<open>id\<close> is \<open>idP\<close>.
\<close>

definition put_contacts_id ::
  "string \<Rightarrow> contact \<Rightarrow> contact jsmap \<Rightarrow> response \<times> contact jsmap" where
  "put_contacts_id idP reqBody contacts =
     (case Map_get contacts idP of
        None \<Rightarrow> ((404, Error ''Contact not found''), contacts)
      | Some contact \<Rightarrow>
          let contact = (if truthy (firstName reqBody)
                         then contact\<lparr>firstName := firstName reqBody\<rparr> else contact);
              contact = (if truthy (lastName reqBody)
                         then contact\<lparr>lastName := lastName reqBody\<rparr> else contact);
              contact = (if truthy (phone reqBody)
                         then contact\<lparr>phone := phone reqBody\<rparr> else contact);
              contact = (if truthy (address reqBody)
                         then contact\<lparr>address := address reqBody\<rparr> else contact);
              contact = (if truthy (email reqBody)
                         then contact\<lparr>email := email reqBody\<rparr> else contact);
              contacts = Map_set contacts idP contact;
              validationErrors = validateContact contacts contact False
          in if length (Map_keys validationErrors) > 0
             then ((400, ErrorDetails ''Validation failed'' validationErrors), contacts)
             else ((200, Message ''Contact updated successfully''), contacts))"

text \<open>\<open>DELETE /contacts/:id\<close>.\<close>

definition delete_contacts_id :: "string \<Rightarrow> contact jsmap \<Rightarrow> response \<times> contact jsmap" where
  "delete_contacts_id idP contacts =
     (case Map_delete contacts idP of
        (True, contacts') \<Rightarrow> ((200, Message ''Contact deleted successfully''), contacts')
      | (False, contacts') \<Rightarrow> ((404, Error ''Contact not found''), contacts'))"

text \<open>
  \<open>GET /contacts/:id\<close>: the binary search over the sorted keys. \<open>left\<close> and \<open>right\<close> are
  integers (\<open>right\<close> starts at \<open>-1\<close> for an empty Map); for \<open>left \<le> right\<close> the midpoint
  \<open>Math.floor(left + (right - left) / 2)\<close> is \<open>left + (right - left) div 2\<close>. An index
  outside the array reads \<open>undefined\<close>, which is neither \<open>===\<close> nor \<open><\<close> a string.
\<close>

definition at :: "'a list \<Rightarrow> int \<Rightarrow> 'a option" where
  "at xs i = (if 0 \<le> i \<and> i < int (length xs) then Some (xs ! nat i) else None)"

function bsearch :: "string list \<Rightarrow> string \<Rightarrow> int \<Rightarrow> int \<Rightarrow> bool" where
  "bsearch sortedIds idP left right =
     (if left \<le> right
      then let mid = left + (right - left) div 2
           in case at sortedIds mid of
                Some k \<Rightarrow>
                  if k = idP then True
                  else if k < idP then bsearch sortedIds idP (mid + 1) right
                  else bsearch sortedIds idP left (mid - 1)
              | None \<Rightarrow> bsearch sortedIds idP left (mid - 1)
      else False)"
  by pat_completeness auto
termination
  by (relation "measure (\<lambda>(sortedIds, idP, left, right). nat (right - left + 1))") auto

definition get_contacts_id :: "string \<Rightarrow> contact jsmap \<Rightarrow> response \<times> contact jsmap" where
  "get_contacts_id idP contacts =
     (let sortedIds = sort (Map_keys contacts)
      in if bsearch sortedIds idP 0 (int (length sortedIds) - 1)
         then (case Map_get contacts idP of
                 Some contact \<Rightarrow> ((200, ContactBody contact), contacts)
               | None \<Rightarrow> ((200, NoBody), contacts))
         else ((404, Error ''Contact not found''), contacts))"

section \<open>The array-backed server\<close>

text \<open>
  The earlier server keeps \<open>contacts\<close> as an array of contact objects, in insertion
  order. Its field validators are the ones above; \<open>validateContact\<close> looks for a
  duplicate with \<open>contacts.find\<close>.
\<close>

definition validateContact_arr :: "contact list \<Rightarrow> contact \<Rightarrow> bool \<Rightarrow> errors" where
  "validateContact_arr contacts contact isNewContact =
     (let errors = [];
          errors =
            (if missing (id' contact) then Map_set errors ''id'' ''ID is required''
             else case id' contact of
               None \<Rightarrow> Map_set errors ''id'' ''ID is required''
             | Some i \<Rightarrow>
                 if length (trim i) > 10
                 then Map_set errors ''id'' ''ID must be 10 characters or less''
                 else if isNewContact \<and> List.find (\<lambda>c. id' c = Some (trim i)) contacts \<noteq> None
                 then Map_set errors ''id'' ''ID already exists. Please choose a different ID.''
                 else errors);
          errors =
            (if missing (firstName contact)
             then Map_set errors ''firstName'' ''First name is required'' else errors);
          errors =
            (if missing (lastName contact)
             then Map_set errors ''lastName'' ''Last name is required'' else errors);
          emailError = validateEmail (email contact);
          errors = (case emailError of Some e \<Rightarrow> Map_set errors ''email'' e | None \<Rightarrow> errors);
          phoneError = validatePhone (phone contact);
          errors = (case phoneError of Some e \<Rightarrow> Map_set errors ''phone'' e | None \<Rightarrow> errors);
          addressError = validateAddress (address contact);
          errors = (case addressError of Some e \<Rightarrow> Map_set errors ''address'' e | None \<Rightarrow> errors)
      in errors)"

text \<open>\<open>GET /contacts\<close> sends the array as it is.\<close>

definition get_contacts_arr :: "contact list \<Rightarrow> response \<times> contact list" where
  "get_contacts_arr contacts = ((200, Contacts contacts), contacts)"

definition post_contacts_arr :: "contact \<Rightarrow> contact list \<Rightarrow> response \<times> contact list" where
  "post_contacts_arr reqBody contacts =
     (let validationErrors = validateContact_arr contacts reqBody True
      in if length (Map_keys validationErrors) > 0
         then ((400, ErrorDetails ''Validation failed'' validationErrors), contacts)
         else let contact = \<lparr>id' = id' reqBody, firstName = firstName reqBody,
                    lastName = lastName reqBody, phone = phone reqBody,
                    address = address reqBody, email = email reqBody\<rparr>
              in ((201, Message ''Contact added successfully''), contacts @ [contact]))"

text \<open>\<open>Array.prototype.findIndex\<close>, with \<open>None\<close> for \<open>-1\<close>.\<close>

fun findIndex :: "('a \<Rightarrow> bool) \<Rightarrow> 'a list \<Rightarrow> nat option" where
  "findIndex P [] = None"
| "findIndex P (x # xs) = (if P x then Some 0 else map_option Suc (findIndex P xs))"

text \<open>
  \<open>PUT /contacts/:id\<close> validates the body first and then replaces the element by a new
  object, whose id is the route parameter.
\<close>

definition put_contacts_id_arr ::
  "string \<Rightarrow> contact \<Rightarrow> contact list \<Rightarrow> response \<times> contact list" where
  "put_contacts_id_arr idP reqBody contacts =
     (case findIndex (\<lambda>c. id' c = Some idP) contacts of
        None \<Rightarrow> ((404, Error ''Contact not found''), contacts)
      | Some contactIndex \<Rightarrow>
          let validationErrors = validateContact_arr contacts reqBody False
          in if length (Map_keys validationErrors) > 0
             then ((400, ErrorDetails ''Validation failed'' validationErrors), contacts)
             else ((200, Message ''Contact updated successfully''),
                   contacts[contactIndex := \<lparr>id' = Some idP, firstName = firstName reqBody,
                     lastName = lastName reqBody, phone = phone reqBody,
                     address = address reqBody, email = email reqBody\<rparr>]))"

definition delete_contacts_id_arr :: "string \<Rightarrow> contact list \<Rightarrow> response \<times> contact list" where
  "delete_contacts_id_arr idP contacts =
     (let initialLength = length contacts;
          contacts = filter (\<lambda>c. id' c \<noteq> Some idP) contacts
      in if length contacts = initialLength
         then ((404, Error ''Contact not found''), contacts)
         else ((200, Message ''Contact deleted successfully''), contacts))"

section \<open>The validators of the database-backed server\<close>

text \<open>
  The server that stores contacts in MySQL validates with the field validators
  \<open>validateEmail_db\<close>, \<open>validatePhone_db\<close> and \<open>validateAddress_db\<close> above. Its
  handlers pass the record on to the database and are not part of this theory.
\<close>

definition validateContact_db :: "contact \<Rightarrow> errors" where
  "validateContact_db contact =
     (let errors = [];
          errors =
            (if \<not> truthy (id' contact) \<or> (case id' contact of None \<Rightarrow> False | Some i \<Rightarrow> length i > 10)
             then Map_set errors ''id'' ''ID must be 10 characters or less'' else errors);
          errors =
            (if \<not> truthy (firstName contact)
             then Map_set errors ''firstName'' ''First name is required'' else errors);
          errors =
            (if \<not> truthy (lastName contact)
             then Map_set errors ''lastName'' ''Last name is required'' else errors);
          emailError = validateEmail_db (email contact);
          errors = (case emailError of Some e \<Rightarrow> Map_set errors ''email'' e | None \<Rightarrow> errors);
          phoneError = validatePhone_db (phone contact);
          errors = (case phoneError of Some e \<Rightarrow> Map_set errors ''phone'' e | None \<Rightarrow> errors);
          addressError = validateAddress_db (address contact);
          errors = (case addressError of Some e \<Rightarrow> Map_set errors ''address'' e | None \<Rightarrow> errors)
      in errors)"

section \<open>Auxiliary notions\<close>

text \<open>
  The record that the five conditional assignments of the Map-backed update handler
  leave in the store: a field of the body replaces the stored one only when it is a
  non-empty string.
\<close>

definition merged :: "contact \<Rightarrow> contact \<Rightarrow> contact" where
  "merged old b =
     old\<lparr>firstName := (if truthy (firstName b) then firstName b else firstName old),
         lastName := (if truthy (lastName b) then lastName b else lastName old),
         phone := (if truthy (phone b) then phone b else phone old),
         address := (if truthy (address b) then address b else address old),
         email := (if truthy (email b) then email b else email old)\<rparr>"

text \<open>
  The entries of a validation report, field by field: the message of each field's rule,
  and the property it becomes.
\<close>

definition entry :: "string \<Rightarrow> string option \<Rightarrow> errors" where
  "entry k e = (case e of None \<Rightarrow> [] | Some msg \<Rightarrow> [(k, msg)])"

definition requiredError :: "string option \<Rightarrow> string \<Rightarrow> string option" where
  "requiredError v msg = (if missing v then Some msg else None)"

definition requiredError_db :: "string option \<Rightarrow> string \<Rightarrow> string option" where
  "requiredError_db v msg = (if \<not> truthy v then Some msg else None)"

definition idError :: "contact jsmap \<Rightarrow> contact \<Rightarrow> bool \<Rightarrow> string option" where
  "idError contacts contact isNewContact =
     (if missing (id' contact) then Some ''ID is required''
      else case id' contact of
        None \<Rightarrow> Some ''ID is required''
      | Some i \<Rightarrow>
          if length (trim i) > 10 then Some ''ID must be 10 characters or less''
          else if isNewContact \<and> Map_has contacts (trim i) then Some ''ID already exists''
          else None)"

definition idError_arr :: "contact list \<Rightarrow> contact \<Rightarrow> bool \<Rightarrow> string option" where
  "idError_arr contacts contact isNewContact =
     (if missing (id' contact) then Some ''ID is required''
      else case id' contact of
        None \<Rightarrow> Some ''ID is required''
      | Some i \<Rightarrow>
          if length (trim i) > 10 then Some ''ID must be 10 characters or less''
          else if isNewContact \<and> List.find (\<lambda>c. id' c = Some (trim i)) contacts \<noteq> None
          then Some ''ID already exists. Please choose a different ID.''
          else None)"

definition idError_db :: "contact \<Rightarrow> string option" where
  "idError_db contact =
     (if \<not> truthy (id' contact) \<or> (case id' contact of None \<Rightarrow> False | Some i \<Rightarrow> length i > 10)
      then Some ''ID must be 10 characters or less'' else None)"

text \<open>
  A lower bound on the number of digits in any string a regular expression matches.
\<close>

fun minDigits :: "rexp \<Rightarrow> nat" where
  "minDigits Eps = 0"
| "minDigits (Class P) = (if \<forall>c. P c \<longrightarrow> isDigit c then 1 else 0)"
| "minDigits (Seq a b) = minDigits a + minDigits b"
| "minDigits (Opt a) = 0"
| "minDigits (Plus a) = minDigits a"

text \<open>
  The strings a regular expression matches, and the strings the pattern of
  \<open>validatePhone\<close> matches, written out: an optional \<open>+\<close>, an optional \<open>1\<close>, an optional
  separator, an optional \<open>(\<close>, three digits, an optional \<open>)\<close>, an optional separator,
  three digits, an optional separator, four digits. A separator is one character of
  \<open>[-.\s]\<close>.
\<close>

definition conc :: "string set \<Rightarrow> string set \<Rightarrow> string set" where
  "conc A B = {u @ v | u v. u \<in> A \<and> v \<in> B}"

primrec lang :: "rexp \<Rightarrow> string set" where
  "lang Eps = {[]}"
| "lang (Class P) = {[c] | c. P c}"
| "lang (Seq a b) = conc (lang a) (lang b)"
| "lang (Opt a) = insert [] (lang a)"
| "lang (Plus a) = {concat ws | ws. ws \<noteq> [] \<and> set ws \<subseteq> lang a}"

definition optChar :: "char \<Rightarrow> string \<Rightarrow> bool" where
  "optChar x s = (s = [] \<or> s = [x])"

definition optSep :: "string \<Rightarrow> bool" where
  "optSep s = (s = [] \<or> (\<exists>c. s = [c] \<and> isSep c))"

definition digitGroup :: "nat \<Rightarrow> string \<Rightarrow> bool" where
  "digitGroup n s = (length s = n \<and> list_all isDigit s)"

definition phoneShape :: "string \<Rightarrow> bool" where
  "phoneShape p =
     (\<exists>plus one s0 lp d1 rp s1 d2 s2 d3.
        p = plus @ one @ s0 @ lp @ d1 @ rp @ s1 @ d2 @ s2 @ d3
        \<and> optChar CHR ''+'' plus \<and> optChar CHR ''1'' one \<and> optSep s0
        \<and> optChar CHR ''('' lp \<and> digitGroup 3 d1 \<and> optChar CHR '')'' rp
        \<and> optSep s1 \<and> digitGroup 3 d2 \<and> optSep s2 \<and> digitGroup 4 d3)"

text \<open>
  The rules as the servers check them: \<open>passes\<close> holds for a record for which
  \<open>validateContact\<close>, without the duplicate check, reports no failure.
\<close>

definition passes :: "contact \<Rightarrow> bool" where
  "passes c = (validateContact [] c False = [])"

text \<open>
  In every store that the handlers of the Map-backed server reach from the empty Map
  the keys are distinct and each record is stored under its own id.
\<close>

definition keyed :: "contact jsmap \<Rightarrow> bool" where
  "keyed contacts =
     (distinct (Map_keys contacts) \<and> list_all (\<lambda>e. id' (snd e) = Some (fst e)) contacts)"

text \<open>A collation to try \<open>get_contacts\<close> with: the comparison of code units.\<close>

definition codeUnitCompare :: "string \<Rightarrow> string \<Rightarrow> int" where
  "codeUnitCompare x y = (if x < y then - 1 else if x = y then 0 else 1)"

section \<open>The rules in the words of the specification\<close>

text \<open>
  The five field rules as the specification words them: id non-empty and at most 10
  characters, first and last name non-empty, email matching the email pattern, phone
  passing phone validation, address, if present, at most 200 characters.
\<close>

definition fieldRules_spec :: "contact \<Rightarrow> bool" where
  "fieldRules_spec c =
     ((case id' c of Some i \<Rightarrow> i \<noteq> [] \<and> length i \<le> 10 | None \<Rightarrow> False)
      \<and> (case firstName c of Some f \<Rightarrow> f \<noteq> [] | None \<Rightarrow> False)
      \<and> (case lastName c of Some l \<Rightarrow> l \<noteq> [] | None \<Rightarrow> False)
      \<and> (case email c of Some e \<Rightarrow> test emailRegex e | None \<Rightarrow> False)
      \<and> validatePhone (phone c) = None
      \<and> (case address c of Some a \<Rightarrow> length a \<le> 200 | None \<Rightarrow> True))"

text \<open>
  The phone pattern as the specification words it: an optional leading \<open>+1\<close>, and
  optional separators between the digit groups of three, three and four digits. The
  reading is generous: a separator may follow the \<open>+1\<close>, and the first group may stand
  in a pair of parentheses.
\<close>

definition optSeparator_spec :: "string \<Rightarrow> string" where
  "optSeparator_spec s = (case s of [] \<Rightarrow> [] | c # cs \<Rightarrow> if isSep c then cs else s)"

definition digitGroup_spec :: "nat \<Rightarrow> string \<Rightarrow> string option" where
  "digitGroup_spec n s =
     (if n \<le> length s \<and> list_all isDigit (take n s) then Some (drop n s) else None)"

definition areaCode_spec :: "string \<Rightarrow> string option" where
  "areaCode_spec s =
     (case s of
        [] \<Rightarrow> None
      | c # cs \<Rightarrow>
          if c = CHR ''(''
          then (case digitGroup_spec 3 cs of
                  None \<Rightarrow> None
                | Some r \<Rightarrow> (case r of [] \<Rightarrow> None
                             | d # ds \<Rightarrow> if d = CHR '')'' then Some ds else None))
          else digitGroup_spec 3 s)"

definition nanpLike_spec :: "string \<Rightarrow> bool" where
  "nanpLike_spec p =
     (let s = (if take 2 p = ''+1'' then optSeparator_spec (drop 2 p) else p)
      in case areaCode_spec s of
           None \<Rightarrow> False
         | Some s1 \<Rightarrow>
             (case digitGroup_spec 3 (optSeparator_spec s1) of
                None \<Rightarrow> False
              | Some s2 \<Rightarrow>
                  (case digitGroup_spec 4 (optSeparator_spec s2) of
                     None \<Rightarrow> False
                   | Some s3 \<Rightarrow> s3 = [])))"

text \<open>The order of a listing: strictly ascending lexicographic order of id.\<close>

definition ascendingIds_spec :: "contact list \<Rightarrow> bool" where
  "ascendingIds_spec cs =
     sorted_wrt (\<lambda>a b. case (id' a, id' b) of (Some x, Some y) \<Rightarrow> x < y | _ \<Rightarrow> False) cs"

section \<open>Example requests\<close>

definition jo :: contact where
  "jo = \<lparr>id' = Some ''A1'', firstName = Some ''Jo'', lastName = Some ''Li'',
          phone = Some ''555-123-4567'', address = None, email = Some ''jo@x.com''\<rparr>"

definition onlyPhone :: "string \<Rightarrow> contact" where
  "onlyPhone p = \<lparr>id' = None, firstName = None, lastName = None,
                  phone = Some p, address = None, email = None\<rparr>"

definition joHome :: contact where
  "joHome = jo\<lparr>address := Some ''1 Main St''\<rparr>"

definition emptyFields :: contact where
  "emptyFields = \<lparr>id' = None, firstName = Some [], lastName = None,
                   phone = None, address = Some [], email = Some ''new@x.com''\<rparr>"

definition joSpace :: contact where
  "joSpace = jo\<lparr>id' := Some '' A1''\<rparr>"

definition alSpace :: contact where
  "alSpace = joSpace\<lparr>firstName := Some ''Al''\<rparr>"

definition noFields :: contact where
  "noFields = \<lparr>id' = None, firstName = Some ''  '', lastName = None,
                phone = Some ''12345'', address = None, email = Some ''jo@x''\<rparr>"

definition longAddress :: contact where
  "longAddress = jo\<lparr>address := Some (replicate 200 CHR ''a'' @ '' '')\<rparr>"

definition b2 :: contact where
  "b2 = jo\<lparr>id' := Some ''B2''\<rparr>"

section \<open>Facts about the Map\<close>

lemma Map_get_Map_set_same: "Map_get (Map_set m k v) k = Some v"
  by (induction m) (auto simp: Map_get_def)

lemma Map_get_Map_set_other: "k' \<noteq> k \<Longrightarrow> Map_get (Map_set m k v) k' = Map_get m k'"
  by (induction m) (auto simp: Map_get_def)

section \<open>The update handler of the Map-backed server, in one step\<close>

lemma put_contacts_id_found:
  assumes "Map_get contacts idP = Some old"
  shows "put_contacts_id idP reqBody contacts =
     (let contacts' = Map_set contacts idP (merged old reqBody);
          validationErrors = validateContact contacts' (merged old reqBody) False
      in if length (Map_keys validationErrors) > 0
         then ((400, ErrorDetails ''Validation failed'' validationErrors), contacts')
         else ((200, Message ''Contact updated successfully''), contacts'))"
proof -
  have m: "(let contact = (if truthy (firstName reqBody)
                           then old\<lparr>firstName := firstName reqBody\<rparr> else old);
                contact = (if truthy (lastName reqBody)
                           then contact\<lparr>lastName := lastName reqBody\<rparr> else contact);
                contact = (if truthy (phone reqBody)
                           then contact\<lparr>phone := phone reqBody\<rparr> else contact);
                contact = (if truthy (address reqBody)
                           then contact\<lparr>address := address reqBody\<rparr> else contact);
                contact = (if truthy (email reqBody)
                           then contact\<lparr>email := email reqBody\<rparr> else contact)
            in contact) = merged old reqBody"
    by (simp add: merged_def Let_def)
  show ?thesis
    using assms m unfolding put_contacts_id_def Let_def by simp
qed

lemma put_contacts_id_store:
  assumes "Map_get contacts idP = Some old"
  shows "snd (put_contacts_id idP reqBody contacts) = Map_set contacts idP (merged old reqBody)"
  using put_contacts_id_found[OF assms, of reqBody] by (simp add: Let_def)

lemma put_contacts_id_absent:
  "Map_get contacts idP = None \<Longrightarrow>
   put_contacts_id idP reqBody contacts = ((404, Error ''Contact not found''), contacts)"
  by (simp add: put_contacts_id_def)

lemma Map_set_fresh: "k \<notin> fst ` set m \<Longrightarrow> Map_set m k v = m @ [(k, v)]"
  by (induction m) auto

lemma Map_set_not_Nil: "Map_set m k v \<noteq> []"
  by (cases m) (auto split: if_splits)

lemma Map_set_idem: "Map_set (Map_set m k v) k v = Map_set m k v"
  by (induction m) auto

lemma Map_has_iff: "Map_has m k = (k \<in> set (Map_keys m))"
  by (simp add: Map_has_def Map_keys_def map_of_eq_None_iff)

section \<open>The shape of a validation report\<close>

lemma notin_entry: "k' \<noteq> k \<Longrightarrow> k' \<notin> fst ` set (entry k e)"
  by (auto simp: entry_def split: option.splits)

lemma step_case:
  "k \<notin> fst ` set errs \<Longrightarrow>
   (case e of Some m \<Rightarrow> Map_set errs k m | None \<Rightarrow> errs) = errs @ entry k e"
  by (cases e) (simp_all add: entry_def Map_set_fresh)

lemma step_if:
  "k \<notin> fst ` set errs \<Longrightarrow>
   (if missing v then Map_set errs k m else errs) = errs @ entry k (requiredError v m)"
  by (simp add: entry_def requiredError_def Map_set_fresh)

lemma step_if_db:
  "k \<notin> fst ` set errs \<Longrightarrow>
   (if \<not> truthy v then Map_set errs k m else errs) = errs @ entry k (requiredError_db v m)"
  by (simp add: entry_def requiredError_db_def Map_set_fresh)

lemma step_id:
  "(if missing (id' c) then Map_set [] ''id'' ''ID is required''
    else case id' c of
      None \<Rightarrow> Map_set [] ''id'' ''ID is required''
    | Some i \<Rightarrow>
        if length (trim i) > 10
        then Map_set [] ''id'' ''ID must be 10 characters or less''
        else if n \<and> Map_has contacts (trim i)
        then Map_set [] ''id'' ''ID already exists''
        else []) = entry ''id'' (idError contacts c n)"
  by (simp add: entry_def idError_def split: option.splits)

lemma step_id_arr:
  "(if missing (id' c) then Map_set [] ''id'' ''ID is required''
    else case id' c of
      None \<Rightarrow> Map_set [] ''id'' ''ID is required''
    | Some i \<Rightarrow>
        if length (trim i) > 10
        then Map_set [] ''id'' ''ID must be 10 characters or less''
        else if n \<and> List.find (\<lambda>c. id' c = Some (trim i)) contacts \<noteq> None
        then Map_set [] ''id'' ''ID already exists. Please choose a different ID.''
        else []) = entry ''id'' (idError_arr contacts c n)"
  by (cases "id' c") (auto simp: entry_def idError_arr_def)

lemma step_id_db:
  "(if \<not> truthy (id' c) \<or> (case id' c of None \<Rightarrow> False | Some i \<Rightarrow> length i > 10)
    then Map_set [] ''id'' ''ID must be 10 characters or less'' else [])
   = entry ''id'' (idError_db c)"
  by (simp add: entry_def idError_db_def)

lemma validateContact_entries:
  "validateContact contacts c n =
     entry ''id'' (idError contacts c n)
     @ entry ''firstName'' (requiredError (firstName c) ''First name is required'')
     @ entry ''lastName'' (requiredError (lastName c) ''Last name is required'')
     @ entry ''email'' (validateEmail (email c))
     @ entry ''phone'' (validatePhone (phone c))
     @ entry ''address'' (validateAddress (address c))"
proof -
  let ?e1 = "entry ''id'' (idError contacts c n)"
  let ?e2 = "?e1 @ entry ''firstName'' (requiredError (firstName c) ''First name is required'')"
  let ?e3 = "?e2 @ entry ''lastName'' (requiredError (lastName c) ''Last name is required'')"
  let ?e4 = "?e3 @ entry ''email'' (validateEmail (email c))"
  let ?e5 = "?e4 @ entry ''phone'' (validatePhone (phone c))"
  let ?e6 = "?e5 @ entry ''address'' (validateAddress (address c))"
  have s2: "(if missing (firstName c)
             then Map_set ?e1 ''firstName'' ''First name is required'' else ?e1) = ?e2"
    by (rule step_if) (simp add: notin_entry)
  have s3: "(if missing (lastName c)
             then Map_set ?e2 ''lastName'' ''Last name is required'' else ?e2) = ?e3"
    by (rule step_if) (simp add: notin_entry image_Un)
  have s4: "(case validateEmail (email c) of
               Some e \<Rightarrow> Map_set ?e3 ''email'' e | None \<Rightarrow> ?e3) = ?e4"
    by (rule step_case) (simp add: notin_entry image_Un)
  have s5: "(case validatePhone (phone c) of
               Some e \<Rightarrow> Map_set ?e4 ''phone'' e | None \<Rightarrow> ?e4) = ?e5"
    by (rule step_case) (simp add: notin_entry image_Un)
  have s6: "(case validateAddress (address c) of
               Some e \<Rightarrow> Map_set ?e5 ''address'' e | None \<Rightarrow> ?e5) = ?e6"
    by (rule step_case) (simp add: notin_entry image_Un)
  show ?thesis
    unfolding validateContact_def Let_def step_id s2 s3 s4 s5 s6 by simp
qed

lemma validateContact_arr_entries:
  "validateContact_arr contacts c n =
     entry ''id'' (idError_arr contacts c n)
     @ entry ''firstName'' (requiredError (firstName c) ''First name is required'')
     @ entry ''lastName'' (requiredError (lastName c) ''Last name is required'')
     @ entry ''email'' (validateEmail (email c))
     @ entry ''phone'' (validatePhone (phone c))
     @ entry ''address'' (validateAddress (address c))"
proof -
  let ?e1 = "entry ''id'' (idError_arr contacts c n)"
  let ?e2 = "?e1 @ entry ''firstName'' (requiredError (firstName c) ''First name is required'')"
  let ?e3 = "?e2 @ entry ''lastName'' (requiredError (lastName c) ''Last name is required'')"
  let ?e4 = "?e3 @ entry ''email'' (validateEmail (email c))"
  let ?e5 = "?e4 @ entry ''phone'' (validatePhone (phone c))"
  let ?e6 = "?e5 @ entry ''address'' (validateAddress (address c))"
  have s2: "(if missing (firstName c)
             then Map_set ?e1 ''firstName'' ''First name is required'' else ?e1) = ?e2"
    by (rule step_if) (simp add: notin_entry)
  have s3: "(if missing (lastName c)
             then Map_set ?e2 ''lastName'' ''Last name is required'' else ?e2) = ?e3"
    by (rule step_if) (simp add: notin_entry image_Un)
  have s4: "(case validateEmail (email c) of
               Some e \<Rightarrow> Map_set ?e3 ''email'' e | None \<Rightarrow> ?e3) = ?e4"
    by (rule step_case) (simp add: notin_entry image_Un)
  have s5: "(case validatePhone (phone c) of
               Some e \<Rightarrow> Map_set ?e4 ''phone'' e | None \<Rightarrow> ?e4) = ?e5"
    by (rule step_case) (simp add: notin_entry image_Un)
  have s6: "(case validateAddress (address c) of
               Some e \<Rightarrow> Map_set ?e5 ''address'' e | None \<Rightarrow> ?e5) = ?e6"
    by (rule step_case) (simp add: notin_entry image_Un)
  show ?thesis
    unfolding validateContact_arr_def Let_def step_id_arr s2 s3 s4 s5 s6 by simp
qed

lemma validateContact_db_entries:
  "validateContact_db c =
     entry ''id'' (idError_db c)
     @ entry ''firstName'' (requiredError_db (firstName c) ''First name is required'')
     @ entry ''lastName'' (requiredError_db (lastName c) ''Last name is required'')
     @ entry ''email'' (validateEmail_db (email c))
     @ entry ''phone'' (validatePhone_db (phone c))
     @ entry ''address'' (validateAddress_db (address c))"
proof -
  let ?e1 = "entry ''id'' (idError_db c)"
  let ?e2 = "?e1 @ entry ''firstName'' (requiredError_db (firstName c) ''First name is required'')"
  let ?e3 = "?e2 @ entry ''lastName'' (requiredError_db (lastName c) ''Last name is required'')"
  let ?e4 = "?e3 @ entry ''email'' (validateEmail_db (email c))"
  let ?e5 = "?e4 @ entry ''phone'' (validatePhone_db (phone c))"
  let ?e6 = "?e5 @ entry ''address'' (validateAddress_db (address c))"
  have s2: "(if \<not> truthy (firstName c)
             then Map_set ?e1 ''firstName'' ''First name is required'' else ?e1) = ?e2"
    by (rule step_if_db) (simp add: notin_entry)
  have s3: "(if \<not> truthy (lastName c)
             then Map_set ?e2 ''lastName'' ''Last name is required'' else ?e2) = ?e3"
    by (rule step_if_db) (simp add: notin_entry image_Un)
  have s4: "(case validateEmail_db (email c) of
               Some e \<Rightarrow> Map_set ?e3 ''email'' e | None \<Rightarrow> ?e3) = ?e4"
    by (rule step_case) (simp add: notin_entry image_Un)
  have s5: "(case validatePhone_db (phone c) of
               Some e \<Rightarrow> Map_set ?e4 ''phone'' e | None \<Rightarrow> ?e4) = ?e5"
    by (rule step_case) (simp add: notin_entry image_Un)
  have s6: "(case validateAddress_db (address c) of
               Some e \<Rightarrow> Map_set ?e5 ''address'' e | None \<Rightarrow> ?e5) = ?e6"
    by (rule step_case) (simp add: notin_entry image_Un)
  show ?thesis
    unfolding validateContact_db_def Let_def step_id_db s2 s3 s4 s5 s6 by simp
qed

lemma Map_get_entry: "Map_get (entry k e) k' = (if k' = k then e else None)"
  by (simp add: Map_get_def entry_def split: option.splits)

lemma Map_get_append:
  "Map_get (a @ b) k = (case Map_get a k of Some v \<Rightarrow> Some v | None \<Rightarrow> Map_get b k)"
  unfolding Map_get_def by (simp add: map_add_def split: option.splits)

lemma entry_Nil: "(entry k e = []) = (e = None)"
  by (simp add: entry_def split: option.splits)

lemma validateContact_ok:
  "(validateContact contacts c n = []) =
     (idError contacts c n = None \<and> \<not> missing (firstName c) \<and> \<not> missing (lastName c)
      \<and> validateEmail (email c) = None \<and> validatePhone (phone c) = None
      \<and> validateAddress (address c) = None)"
  by (simp add: validateContact_entries entry_Nil requiredError_def)

lemma validateContact_arr_ok:
  "(validateContact_arr contacts c n = []) =
     (idError_arr contacts c n = None \<and> \<not> missing (firstName c) \<and> \<not> missing (lastName c)
      \<and> validateEmail (email c) = None \<and> validatePhone (phone c) = None
      \<and> validateAddress (address c) = None)"
  by (simp add: validateContact_arr_entries entry_Nil requiredError_def)

lemma idError_None:
  "(idError contacts c n = None) =
     (\<exists>i. id' c = Some i \<and> trim i \<noteq> [] \<and> length (trim i) \<le> 10
          \<and> \<not> (n \<and> Map_has contacts (trim i)))"
  by (cases "id' c") (auto simp: idError_def missing_def trim_def)

lemma idError_arr_None:
  "(idError_arr contacts c n = None) =
     (\<exists>i. id' c = Some i \<and> trim i \<noteq> [] \<and> length (trim i) \<le> 10
          \<and> \<not> (n \<and> List.find (\<lambda>d. id' d = Some (trim i)) contacts \<noteq> None))"
  by (cases "id' c") (auto simp: idError_arr_def missing_def trim_def)

lemma validateContact_store_irrelevant:
  "validateContact contacts c False = validateContact contacts' c False"
  by (cases "id' c") (simp_all add: validateContact_entries idError_def)

section \<open>The add handlers, in one step\<close>

lemma post_contacts_cases:
  "post_contacts c contacts =
     (if validateContact contacts c True \<noteq> []
      then ((400, ErrorDetails ''Validation failed'' (validateContact contacts c True)), contacts)
      else case id' c of
             Some i \<Rightarrow> ((201, Message ''Contact added successfully''), Map_set contacts i c)
           | None \<Rightarrow> ((500, Error ''Internal server error''), contacts))"
  by (cases c) (simp add: post_contacts_def Let_def Map_keys_def split: option.splits)

lemma post_contacts_created:
  assumes "post_contacts c contacts = ((201, m), contacts')"
  shows "validateContact contacts c True = []
         \<and> (\<exists>i. id' c = Some i \<and> contacts' = Map_set contacts i c)"
  using assms by (auto simp: post_contacts_cases split: if_splits option.splits)

lemma post_contacts_arr_cases:
  "post_contacts_arr c contacts =
     (if validateContact_arr contacts c True \<noteq> []
      then ((400, ErrorDetails ''Validation failed'' (validateContact_arr contacts c True)), contacts)
      else ((201, Message ''Contact added successfully''), contacts @ [c]))"
  by (cases c) (simp add: post_contacts_arr_def Let_def Map_keys_def)

section \<open>Keys and ids of the Map-backed store\<close>

lemma keys_Map_set: "set (Map_keys (Map_set m k v)) = insert k (set (Map_keys m))"
proof (induction m)
  case Nil
  then show ?case by (simp add: Map_keys_def)
next
  case (Cons e m)
  obtain k' v' where e: "e = (k', v')" by (cases e)
  from Cons.IH have "fst ` set (Map_set m k v) = insert k (fst ` set m)"
    by (simp add: Map_keys_def)
  then show ?case
    by (cases "k' = k") (auto simp: Map_keys_def e)
qed

lemma distinct_Map_set: "distinct (Map_keys m) \<Longrightarrow> distinct (Map_keys (Map_set m k v))"
proof (induction m)
  case Nil
  then show ?case by (simp add: Map_keys_def)
next
  case (Cons e m)
  obtain k' v' where e: "e = (k', v')" by (cases e)
  from Cons.prems have d: "distinct (Map_keys m)" and n: "k' \<notin> set (Map_keys m)"
    by (auto simp: Map_keys_def e)
  show ?case
  proof (cases "k' = k")
    case True
    with Cons.prems show ?thesis by (simp add: Map_keys_def e)
  next
    case False
    have "k' \<notin> set (Map_keys (Map_set m k v))"
      using n False by (simp add: keys_Map_set)
    moreover have "distinct (Map_keys (Map_set m k v))"
      using d by (rule Cons.IH)
    ultimately show ?thesis
      using False by (simp add: Map_keys_def e)
  qed
qed

lemma keyed_Map_set:
  assumes "keyed m" and "id' c = Some k"
  shows "keyed (Map_set m k c)"
proof -
  have "list_all (\<lambda>e. id' (snd e) = Some (fst e)) (Map_set m k c)"
    using assms by (induction m) (auto simp: keyed_def Map_keys_def)
  with assms(1) show ?thesis
    by (simp add: keyed_def distinct_Map_set)
qed

lemma keyed_Map_get:
  assumes "keyed m" and "Map_get m k = Some c"
  shows "id' c = Some k"
proof -
  from assms(2) have "(k, c) \<in> set m"
    by (simp add: Map_get_def map_of_SomeD)
  with assms(1) show ?thesis
    by (force simp: keyed_def list_all_iff)
qed

lemma keyed_empty: "keyed []"
  by (simp add: keyed_def Map_keys_def)

lemma keyed_post_contacts: "keyed contacts \<Longrightarrow> keyed (snd (post_contacts c contacts))"
  by (auto simp: post_contacts_cases keyed_Map_set split: option.splits)

lemma keyed_put_contacts_id:
  assumes "keyed contacts"
  shows "keyed (snd (put_contacts_id idP b contacts))"
proof (cases "Map_get contacts idP")
  case None
  with assms show ?thesis by (simp add: put_contacts_id_absent)
next
  case (Some old)
  from keyed_Map_get[OF assms Some] have "id' (merged old b) = Some idP"
    by (simp add: merged_def)
  with assms have "keyed (Map_set contacts idP (merged old b))"
    by (rule keyed_Map_set)
  then show ?thesis
    by (simp add: put_contacts_id_store[OF Some])
qed

lemma keyed_delete_contacts_id:
  "keyed contacts \<Longrightarrow> keyed (snd (delete_contacts_id idP contacts))"
  by (auto simp: delete_contacts_id_def Map_delete_def keyed_def Map_keys_def list_all_iff
      distinct_map_filter split: bool.splits)

lemma keyed_ids:
  assumes "keyed contacts"
  shows "list_all (\<lambda>c. id' c \<noteq> None) (Map_values contacts)"
    and "distinct (map id' (Map_values contacts))"
proof -
  have m: "map id' (Map_values contacts) = map Some (Map_keys contacts)"
    using assms by (induction contacts) (auto simp: keyed_def Map_values_def Map_keys_def)
  show "list_all (\<lambda>c. id' c \<noteq> None) (Map_values contacts)"
    using assms by (auto simp: keyed_def Map_values_def list_all_iff)
  show "distinct (map id' (Map_values contacts))"
    using assms unfolding m by (simp add: keyed_def distinct_map)
qed

section \<open>The update handler writes before it validates\<close>

lemma put_contacts_id_rejected:
  assumes "Map_get contacts idP = Some old"
    and "validateContact [] (merged old b) False \<noteq> []"
  shows "put_contacts_id idP b contacts =
           ((400, ErrorDetails ''Validation failed'' (validateContact [] (merged old b) False)),
            Map_set contacts idP (merged old b))"
proof -
  have "validateContact (Map_set contacts idP (merged old b)) (merged old b) False
        = validateContact [] (merged old b) False"
    by (rule validateContact_store_irrelevant)
  with assms(2) show ?thesis
    by (simp add: put_contacts_id_found[OF assms(1)] Let_def Map_keys_def)
qed

lemma put_contacts_id_arr_rejected:
  assumes "fst (fst (put_contacts_id_arr idP b cs)) \<noteq> 200"
  shows "snd (put_contacts_id_arr idP b cs) = cs"
  using assms
  by (auto simp: put_contacts_id_arr_def Let_def split: option.splits if_splits)

text \<open>
  C1. An update of an existing id whose resulting record fails validation should answer
  with the validation report and leave the stored record as it was. In the Map-backed
  server the request \<open>PUT /contacts/A1\<close> with the body \<open>{phone: "bad"}\<close>, on a store
  holding the valid contact \<open>A1\<close>, is answered 400 with a report on the phone, and the
  stored record has the phone \<open>"bad"\<close> afterwards. The array-backed server, on the same
  request with the whole record in the body, answers 400 and keeps its store. (An
  update of an id that is no key answers 404 and leaves the store unchanged, in both
  servers.)
\<close>

theorem put_contacts_id_writes_on_validation_failure:
  "put_contacts_id ''A1'' (onlyPhone ''bad'') [(''A1'', jo)] =
     ((400, ErrorDetails ''Validation failed''
              [(''phone'', ''Phone number must have at least 10 digits'')]),
      [(''A1'', jo\<lparr>phone := Some ''bad''\<rparr>)])
   \<and> [(''A1'', jo\<lparr>phone := Some ''bad''\<rparr>)] \<noteq> [(''A1'', jo)]
   \<and> post_contacts jo [] = ((201, Message ''Contact added successfully''), [(''A1'', jo)])
   \<and> put_contacts_id_arr ''A1'' (jo\<lparr>phone := Some ''bad''\<rparr>) [jo] =
     ((400, ErrorDetails ''Validation failed''
              [(''phone'', ''Phone number must have at least 10 digits'')]),
      [jo])"
  by code_simp

section \<open>Empty fields of an update\<close>

text \<open>
  C10. In the update of the Map-backed server a field of the body that is absent or the
  empty string is ignored: the stored record keeps its value of that field, whatever the
  answer of the handler. So a stored field that is a non-empty string is a non-empty
  string after every update; this holds for the optional address too. The id of the
  record is never assigned.
\<close>

theorem put_contacts_id_ignores_empty_fields:
  assumes "Map_get contacts idP = Some old"
    and "put_contacts_id idP reqBody contacts = (res, contacts')"
  shows "\<exists>new. Map_get contacts' idP = Some new \<and> id' new = id' old
     \<and> (\<not> truthy (firstName reqBody) \<longrightarrow> firstName new = firstName old)
     \<and> (\<not> truthy (lastName reqBody) \<longrightarrow> lastName new = lastName old)
     \<and> (\<not> truthy (phone reqBody) \<longrightarrow> phone new = phone old)
     \<and> (\<not> truthy (address reqBody) \<longrightarrow> address new = address old)
     \<and> (\<not> truthy (email reqBody) \<longrightarrow> email new = email old)
     \<and> (truthy (firstName old) \<longrightarrow> truthy (firstName new))
     \<and> (truthy (lastName old) \<longrightarrow> truthy (lastName new))
     \<and> (truthy (phone old) \<longrightarrow> truthy (phone new))
     \<and> (truthy (address old) \<longrightarrow> truthy (address new))
     \<and> (truthy (email old) \<longrightarrow> truthy (email new))"
proof -
  have "contacts' = Map_set contacts idP (merged old reqBody)"
    using put_contacts_id_store[OF assms(1), of reqBody] assms(2) by simp
  then have "Map_get contacts' idP = Some (merged old reqBody)"
    by (simp add: Map_get_Map_set_same)
  then show ?thesis
    by (simp add: merged_def)
qed

text \<open>
  The store holds Jo with an address; the body sends an empty first name, an empty
  address and a new email. Only the email changes.
\<close>

theorem put_contacts_id_ignores_empty_fields_witness:
  "Map_get [(''A1'', joHome)] ''A1'' = Some joHome
   \<and> put_contacts_id ''A1'' emptyFields [(''A1'', joHome)] =
       ((200, Message ''Contact updated successfully''),
        [(''A1'', joHome\<lparr>email := Some ''new@x.com''\<rparr>)])
   \<and> (\<exists>new. Map_get [(''A1'', joHome\<lparr>email := Some ''new@x.com''\<rparr>)] ''A1'' = Some new
        \<and> id' new = id' joHome
        \<and> firstName new = firstName joHome
        \<and> address new = address joHome
        \<and> truthy (address new) \<and> truthy (firstName new))"
proof -
  have h1: "Map_get [(''A1'', joHome)] ''A1'' = Some joHome"
    by code_simp
  have h2: "put_contacts_id ''A1'' emptyFields [(''A1'', joHome)] =
       ((200, Message ''Contact updated successfully''),
        [(''A1'', joHome\<lparr>email := Some ''new@x.com''\<rparr>)])"
    by code_simp
  have e: "\<not> truthy (firstName emptyFields)" "\<not> truthy (address emptyFields)"
    by code_simp+
  have t: "truthy (address joHome)" "truthy (firstName joHome)"
    by code_simp+
  from put_contacts_id_ignores_empty_fields[OF h1 h2] e t h1 h2
  show ?thesis by metis
qed

section \<open>The validation report is complete\<close>

lemma validateContact_fields:
  "Map_get (validateContact contacts c n) ''id'' = idError contacts c n"
  "Map_get (validateContact contacts c n) ''firstName'' =
     requiredError (firstName c) ''First name is required''"
  "Map_get (validateContact contacts c n) ''lastName'' =
     requiredError (lastName c) ''Last name is required''"
  "Map_get (validateContact contacts c n) ''email'' = validateEmail (email c)"
  "Map_get (validateContact contacts c n) ''phone'' = validatePhone (phone c)"
  "Map_get (validateContact contacts c n) ''address'' = validateAddress (address c)"
  by (simp_all add: validateContact_entries Map_get_append Map_get_entry split: option.splits)

lemma validateContact_arr_fields:
  "Map_get (validateContact_arr contacts c n) ''id'' = idError_arr contacts c n"
  "Map_get (validateContact_arr contacts c n) ''firstName'' =
     requiredError (firstName c) ''First name is required''"
  "Map_get (validateContact_arr contacts c n) ''lastName'' =
     requiredError (lastName c) ''Last name is required''"
  "Map_get (validateContact_arr contacts c n) ''email'' = validateEmail (email c)"
  "Map_get (validateContact_arr contacts c n) ''phone'' = validatePhone (phone c)"
  "Map_get (validateContact_arr contacts c n) ''address'' = validateAddress (address c)"
  by (simp_all add: validateContact_arr_entries Map_get_append Map_get_entry split: option.splits)

lemma validateContact_db_fields:
  "Map_get (validateContact_db c) ''id'' = idError_db c"
  "Map_get (validateContact_db c) ''firstName'' =
     requiredError_db (firstName c) ''First name is required''"
  "Map_get (validateContact_db c) ''lastName'' =
     requiredError_db (lastName c) ''Last name is required''"
  "Map_get (validateContact_db c) ''email'' = validateEmail_db (email c)"
  "Map_get (validateContact_db c) ''phone'' = validatePhone_db (phone c)"
  "Map_get (validateContact_db c) ''address'' = validateAddress_db (address c)"
  by (simp_all add: validateContact_db_entries Map_get_append Map_get_entry split: option.splits)

text \<open>
  C7. Validation evaluates the rule of every field and puts every failure into the one
  report: the entry of a field in the report is the message of that field's own rule
  (absent when the rule passes), whatever the other fields are. This holds for
  \<open>validateContact\<close> of the Map-backed, the array-backed and the database-backed server.
  A candidate with five invalid fields gets a report with five entries.
\<close>

theorem validateContact_reports_every_field:
  "Map_get (validateContact contacts c n) ''id'' = idError contacts c n
   \<and> Map_get (validateContact contacts c n) ''firstName'' =
       requiredError (firstName c) ''First name is required''
   \<and> Map_get (validateContact contacts c n) ''lastName'' =
       requiredError (lastName c) ''Last name is required''
   \<and> Map_get (validateContact contacts c n) ''email'' = validateEmail (email c)
   \<and> Map_get (validateContact contacts c n) ''phone'' = validatePhone (phone c)
   \<and> Map_get (validateContact contacts c n) ''address'' = validateAddress (address c)
   \<and> Map_get (validateContact_arr cs c n) ''id'' = idError_arr cs c n
   \<and> Map_get (validateContact_arr cs c n) ''firstName'' =
       requiredError (firstName c) ''First name is required''
   \<and> Map_get (validateContact_arr cs c n) ''lastName'' =
       requiredError (lastName c) ''Last name is required''
   \<and> Map_get (validateContact_arr cs c n) ''email'' = validateEmail (email c)
   \<and> Map_get (validateContact_arr cs c n) ''phone'' = validatePhone (phone c)
   \<and> Map_get (validateContact_arr cs c n) ''address'' = validateAddress (address c)
   \<and> Map_get (validateContact_db c) ''id'' = idError_db c
   \<and> Map_get (validateContact_db c) ''firstName'' =
       requiredError_db (firstName c) ''First name is required''
   \<and> Map_get (validateContact_db c) ''lastName'' =
       requiredError_db (lastName c) ''Last name is required''
   \<and> Map_get (validateContact_db c) ''email'' = validateEmail_db (email c)
   \<and> Map_get (validateContact_db c) ''phone'' = validatePhone_db (phone c)
   \<and> Map_get (validateContact_db c) ''address'' = validateAddress_db (address c)
   \<and> validateContact [] noFields True =
       [(''id'', ''ID is required''), (''firstName'', ''First name is required''),
        (''lastName'', ''Last name is required''),
        (''email'', ''Please enter a valid email address''),
        (''phone'', ''Phone number must have at least 10 digits'')]"
proof -
  have "validateContact [] noFields True =
       [(''id'', ''ID is required''), (''firstName'', ''First name is required''),
        (''lastName'', ''Last name is required''),
        (''email'', ''Please enter a valid email address''),
        (''phone'', ''Phone number must have at least 10 digits'')]"
    by code_simp
  then show ?thesis
    by (simp only: validateContact_fields validateContact_arr_fields validateContact_db_fields
        simp_thms)
qed

text \<open>The candidate with five invalid fields, in the three servers.\<close>

theorem validateContact_reports_every_field_witness:
  "Map_get (validateContact [] noFields True) ''id'' = Some ''ID is required''
   \<and> Map_get (validateContact_arr [] noFields True) ''id'' = Some ''ID is required''
   \<and> Map_get (validateContact_db noFields) ''id'' = Some ''ID must be 10 characters or less''
   \<and> Map_get (validateContact_db noFields) ''phone'' = Some ''Invalid phone''
   \<and> Map_get (validateContact_db noFields) ''address'' = None"
proof -
  note T = validateContact_reports_every_field[of "[]" noFields True "[]"]
  have a: "idError [] noFields True = Some ''ID is required''"
    by code_simp
  have b: "idError_arr [] noFields True = Some ''ID is required''"
    by code_simp
  have c: "idError_db noFields = Some ''ID must be 10 characters or less''"
    by code_simp
  have d: "validatePhone_db (phone noFields) = Some ''Invalid phone''"
    by code_simp
  have e: "validateAddress_db (address noFields) = None"
    by code_simp
  have 1: "Map_get (validateContact [] noFields True) ''id'' = Some ''ID is required''"
    using T[THEN conjunct1] a by (rule trans)
  have 2: "Map_get (validateContact_arr [] noFields True) ''id'' = Some ''ID is required''"
    using T[THEN conjunct2, THEN conjunct2, THEN conjunct2, THEN conjunct2, THEN conjunct2,
        THEN conjunct2, THEN conjunct1] b by (rule trans)
  note D = T[THEN conjunct2, THEN conjunct2, THEN conjunct2, THEN conjunct2, THEN conjunct2,
        THEN conjunct2, THEN conjunct2, THEN conjunct2, THEN conjunct2, THEN conjunct2,
        THEN conjunct2, THEN conjunct2]
  have 3: "Map_get (validateContact_db noFields) ''id'' = Some ''ID must be 10 characters or less''"
    using D[THEN conjunct1] c by (rule trans)
  have 4: "Map_get (validateContact_db noFields) ''phone'' = Some ''Invalid phone''"
    using D[THEN conjunct2, THEN conjunct2, THEN conjunct2, THEN conjunct2, THEN conjunct1] d
    by (rule trans)
  have 5: "Map_get (validateContact_db noFields) ''address'' = None"
    using D[THEN conjunct2, THEN conjunct2, THEN conjunct2, THEN conjunct2, THEN conjunct2,
        THEN conjunct1] e
    by (rule trans)
  show ?thesis
    by (rule conjI[OF 1 conjI[OF 2 conjI[OF 3 conjI[OF 4 5]]]])
qed

section \<open>Validation is repeatable and leaves the store alone\<close>

lemma merged_idem: "merged (merged old b) b = merged old b"
  by (simp add: merged_def)

lemma put_contacts_id_twice:
  "put_contacts_id idP b (snd (put_contacts_id idP b contacts)) = put_contacts_id idP b contacts"
proof (cases "Map_get contacts idP")
  case None
  then show ?thesis by (simp add: put_contacts_id_absent)
next
  case (Some old)
  let ?s = "Map_set contacts idP (merged old b)"
  have g: "Map_get ?s idP = Some (merged old b)"
    by (simp add: Map_get_Map_set_same)
  have "put_contacts_id idP b ?s =
     (let contacts' = Map_set ?s idP (merged old b);
          validationErrors = validateContact contacts' (merged old b) False
      in if length (Map_keys validationErrors) > 0
         then ((400, ErrorDetails ''Validation failed'' validationErrors), contacts')
         else ((200, Message ''Contact updated successfully''), contacts'))"
    using put_contacts_id_found[OF g, of b] by (simp only: merged_idem)
  then have "put_contacts_id idP b ?s = put_contacts_id idP b contacts"
    by (simp only: Map_set_idem put_contacts_id_found[OF Some, of b])
  then show ?thesis
    by (simp only: put_contacts_id_store[OF Some, of b])
qed

text \<open>
  C8. \<open>validateContact\<close> is a function of the store, the candidate and the flag, and
  returns the report only: it assigns neither to \<open>contacts\<close> nor to the candidate. For
  the handlers that call it this means: a request that validation rejects is answered
  with the report of \<open>validateContact\<close> and leaves the store as it was, and the same
  request sent again gets the same report (add in both servers, update in the
  array-backed one); the update of the Map-backed server, sent twice, gets the same
  answer and leaves the same store as sent once; and the report of an update does not
  depend on the store.
\<close>

theorem validation_is_repeatable:
  "(post_contacts c contacts = ((400, b), contacts') \<longrightarrow>
      contacts' = contacts
      \<and> b = ErrorDetails ''Validation failed'' (validateContact contacts c True)
      \<and> post_contacts c contacts' = ((400, b), contacts'))
   \<and> (post_contacts_arr c cs = ((400, b), cs') \<longrightarrow>
      cs' = cs
      \<and> b = ErrorDetails ''Validation failed'' (validateContact_arr cs c True)
      \<and> post_contacts_arr c cs' = ((400, b), cs'))
   \<and> (put_contacts_id_arr idP c cs = ((400, b), cs') \<longrightarrow>
      cs' = cs
      \<and> b = ErrorDetails ''Validation failed'' (validateContact_arr cs c False)
      \<and> put_contacts_id_arr idP c cs' = ((400, b), cs'))
   \<and> put_contacts_id idP c (snd (put_contacts_id idP c contacts)) =
       put_contacts_id idP c contacts
   \<and> validateContact contacts c False = validateContact other c False"
proof -
  have 1: "post_contacts c contacts = ((400, b), contacts') \<longrightarrow>
      contacts' = contacts
      \<and> b = ErrorDetails ''Validation failed'' (validateContact contacts c True)
      \<and> post_contacts c contacts' = ((400, b), contacts')"
    by (auto simp: post_contacts_cases split: if_splits option.splits)
  have 2: "post_contacts_arr c cs = ((400, b), cs') \<longrightarrow>
      cs' = cs
      \<and> b = ErrorDetails ''Validation failed'' (validateContact_arr cs c True)
      \<and> post_contacts_arr c cs' = ((400, b), cs')"
    by (auto simp: post_contacts_arr_cases split: if_splits)
  have 3: "put_contacts_id_arr idP c cs = ((400, b), cs') \<longrightarrow>
      cs' = cs
      \<and> b = ErrorDetails ''Validation failed'' (validateContact_arr cs c False)
      \<and> put_contacts_id_arr idP c cs' = ((400, b), cs')"
    by (auto simp: put_contacts_id_arr_def Let_def Map_keys_def split: option.splits if_splits)
  show ?thesis
    using 1 2 3 put_contacts_id_twice[of idP c contacts]
      validateContact_store_irrelevant[of contacts c other]
    by blast
qed

text \<open>The body \<open>{phone: "bad"}\<close> is rejected as a new contact, twice with the same report.\<close>

theorem validation_is_repeatable_witness:
  "post_contacts (onlyPhone ''bad'') [(''A1'', jo)] =
     ((400, ErrorDetails ''Validation failed''
        [(''id'', ''ID is required''), (''firstName'', ''First name is required''),
         (''lastName'', ''Last name is required''), (''email'', ''Email is required''),
         (''phone'', ''Phone number must have at least 10 digits'')]),
      [(''A1'', jo)])
   \<and> ErrorDetails ''Validation failed''
        [(''id'', ''ID is required''), (''firstName'', ''First name is required''),
         (''lastName'', ''Last name is required''), (''email'', ''Email is required''),
         (''phone'', ''Phone number must have at least 10 digits'')]
      = ErrorDetails ''Validation failed''
          (validateContact [(''A1'', jo)] (onlyPhone ''bad'') True)
   \<and> post_contacts_arr (onlyPhone ''bad'') [jo] =
     ((400, ErrorDetails ''Validation failed''
        [(''id'', ''ID is required''), (''firstName'', ''First name is required''),
         (''lastName'', ''Last name is required''), (''email'', ''Email is required''),
         (''phone'', ''Phone number must have at least 10 digits'')]),
      [jo])
   \<and> put_contacts_id_arr ''A1'' (onlyPhone ''bad'') [jo] =
     ((400, ErrorDetails ''Validation failed''
        [(''id'', ''ID is required''), (''firstName'', ''First name is required''),
         (''lastName'', ''Last name is required''), (''email'', ''Email is required''),
         (''phone'', ''Phone number must have at least 10 digits'')]),
      [jo])"
proof -
  let ?r = "[(''id'', ''ID is required''), (''firstName'', ''First name is required''),
         (''lastName'', ''Last name is required''), (''email'', ''Email is required''),
         (''phone'', ''Phone number must have at least 10 digits'')]"
  have h1: "post_contacts (onlyPhone ''bad'') [(''A1'', jo)] =
     ((400, ErrorDetails ''Validation failed'' ?r), [(''A1'', jo)])"
    by code_simp
  have h2: "post_contacts_arr (onlyPhone ''bad'') [jo] =
     ((400, ErrorDetails ''Validation failed'' ?r), [jo])"
    by code_simp
  have h3: "put_contacts_id_arr ''A1'' (onlyPhone ''bad'') [jo] =
     ((400, ErrorDetails ''Validation failed'' ?r), [jo])"
    by code_simp
  from validation_is_repeatable[of "onlyPhone ''bad''" "[(''A1'', jo)]"
      "ErrorDetails ''Validation failed'' ?r" "[(''A1'', jo)]" "[jo]" "[jo]" "''A1''"]
    h1 h2 h3
  show ?thesis by blast
qed

section \<open>The key of an added record\<close>

text \<open>
  C9. A successful add stores the record under the id exactly as it was sent, with its
  surrounding whitespace, while the length rule and the duplicate check look at the
  trimmed id: the trimmed id has at most 10 characters and is no key of the store (no
  id of a stored record, in the array-backed server). So the candidates with the ids
  \<open>" A1"\<close> and \<open>"A1"\<close> are both added, and the store then holds two records whose ids
  are equal after trimming.
\<close>

theorem post_contacts_stores_untrimmed_id:
  "(post_contacts c contacts = ((201, m), contacts') \<longrightarrow>
      (\<exists>i. id' c = Some i \<and> contacts' = Map_set contacts i c
           \<and> Map_get contacts' i = Some c
           \<and> length (trim i) \<le> 10 \<and> \<not> Map_has contacts (trim i)))
   \<and> (post_contacts_arr c cs = ((201, m), cs') \<longrightarrow>
      (\<exists>i. id' c = Some i \<and> cs' = cs @ [c]
           \<and> length (trim i) \<le> 10
           \<and> List.find (\<lambda>d. id' d = Some (trim i)) cs = None))
   \<and> post_contacts joSpace [] =
       ((201, Message ''Contact added successfully''), [('' A1'', joSpace)])
   \<and> post_contacts jo [('' A1'', joSpace)] =
       ((201, Message ''Contact added successfully''), [('' A1'', joSpace), (''A1'', jo)])
   \<and> post_contacts_arr joSpace [] =
       ((201, Message ''Contact added successfully''), [joSpace])
   \<and> post_contacts_arr jo [joSpace] =
       ((201, Message ''Contact added successfully''), [joSpace, jo])
   \<and> id' joSpace = Some '' A1'' \<and> id' jo = Some ''A1'' \<and> trim '' A1'' = trim ''A1''"
proof -
  have 1: "post_contacts c contacts = ((201, m), contacts') \<longrightarrow>
      (\<exists>i. id' c = Some i \<and> contacts' = Map_set contacts i c
           \<and> Map_get contacts' i = Some c
           \<and> length (trim i) \<le> 10 \<and> \<not> Map_has contacts (trim i))"
  proof
    assume a: "post_contacts c contacts = ((201, m), contacts')"
    from post_contacts_created[OF a] obtain i where
      v: "validateContact contacts c True = []" and i: "id' c = Some i"
      and s: "contacts' = Map_set contacts i c"
      by blast
    from v have "idError contacts c True = None"
      by (simp add: validateContact_ok)
    with i have "length (trim i) \<le> 10 \<and> \<not> Map_has contacts (trim i)"
      by (auto simp: idError_None)
    with i s show "\<exists>i. id' c = Some i \<and> contacts' = Map_set contacts i c
           \<and> Map_get contacts' i = Some c
           \<and> length (trim i) \<le> 10 \<and> \<not> Map_has contacts (trim i)"
      by (simp add: Map_get_Map_set_same)
  qed
  have 2: "post_contacts_arr c cs = ((201, m), cs') \<longrightarrow>
      (\<exists>i. id' c = Some i \<and> cs' = cs @ [c]
           \<and> length (trim i) \<le> 10
           \<and> List.find (\<lambda>d. id' d = Some (trim i)) cs = None)"
  proof
    assume a: "post_contacts_arr c cs = ((201, m), cs')"
    then have v: "validateContact_arr cs c True = []" and s: "cs' = cs @ [c]"
      by (auto simp: post_contacts_arr_cases split: if_splits)
    from v have "idError_arr cs c True = None"
      by (simp add: validateContact_arr_ok)
    then obtain i where "id' c = Some i" "length (trim i) \<le> 10"
      "List.find (\<lambda>d. id' d = Some (trim i)) cs = None"
      by (auto simp: idError_arr_None)
    with s show "\<exists>i. id' c = Some i \<and> cs' = cs @ [c]
           \<and> length (trim i) \<le> 10
           \<and> List.find (\<lambda>d. id' d = Some (trim i)) cs = None"
      by blast
  qed
  have 3: "post_contacts joSpace [] =
       ((201, Message ''Contact added successfully''), [('' A1'', joSpace)])"
    by code_simp
  have 4: "post_contacts jo [('' A1'', joSpace)] =
       ((201, Message ''Contact added successfully''), [('' A1'', joSpace), (''A1'', jo)])"
    by code_simp
  have 5: "post_contacts_arr joSpace [] =
       ((201, Message ''Contact added successfully''), [joSpace])"
    by code_simp
  have 6: "post_contacts_arr jo [joSpace] =
       ((201, Message ''Contact added successfully''), [joSpace, jo])"
    by code_simp
  have 7: "id' joSpace = Some '' A1''" "id' jo = Some ''A1''" "trim '' A1'' = trim ''A1''"
    by code_simp+
  show ?thesis
    using 1 2 3 4 5 6 7 by blast
qed

theorem post_contacts_stores_untrimmed_id_witness:
  "post_contacts joSpace [] =
     ((201, Message ''Contact added successfully''), [('' A1'', joSpace)])
   \<and> post_contacts_arr joSpace [] =
     ((201, Message ''Contact added successfully''), [joSpace])
   \<and> (\<exists>i. id' joSpace = Some i \<and> [('' A1'', joSpace)] = Map_set [] i joSpace
           \<and> Map_get [('' A1'', joSpace)] i = Some joSpace
           \<and> length (trim i) \<le> 10 \<and> \<not> Map_has ([] :: contact jsmap) (trim i))
   \<and> (\<exists>i. id' joSpace = Some i \<and> [joSpace] = [] @ [joSpace]
           \<and> length (trim i) \<le> 10
           \<and> List.find (\<lambda>d. id' d = Some (trim i)) ([] :: contact list) = None)"
proof -
  note T = post_contacts_stores_untrimmed_id[of joSpace "[]"
      "Message ''Contact added successfully''" "[('' A1'', joSpace)]" "[]" "[joSpace]"]
  have h1: "post_contacts joSpace [] =
     ((201, Message ''Contact added successfully''), [('' A1'', joSpace)])"
    by code_simp
  have h2: "post_contacts_arr joSpace [] =
     ((201, Message ''Contact added successfully''), [joSpace])"
    by code_simp
  note e1 = T[THEN conjunct1, THEN mp, OF h1]
  note e2 = T[THEN conjunct2, THEN conjunct1, THEN mp, OF h2]
  show ?thesis
    by (rule conjI[OF h1 conjI[OF h2 conjI[OF e1 e2]]])
qed

section \<open>A duplicate id that is added all the same\<close>

lemma post_contacts_rejects_trimmed_duplicate:
  assumes "Map_has contacts k" and "id' c = Some k" and "trim k = k" and "k \<noteq> []"
    and "length k \<le> 10"
  shows "\<exists>r. post_contacts c contacts = ((400, ErrorDetails ''Validation failed'' r), contacts)
             \<and> Map_get r ''id'' = Some ''ID already exists''"
proof -
  have "idError contacts c True = Some ''ID already exists''"
    using assms by (simp add: idError_def missing_def)
  then have g: "Map_get (validateContact contacts c True) ''id'' = Some ''ID already exists''"
    by (simp add: validateContact_entries Map_get_append Map_get_entry)
  then have "validateContact contacts c True \<noteq> []"
    by (auto simp: Map_get_def)
  with g show ?thesis
    by (simp add: post_contacts_cases)
qed

text \<open>
  C4. An add whose id is the id of a stored contact should fail with the duplicate
  error and leave the store unchanged. The Map-backed server looks up the trimmed id
  and stores under the id as sent: with the contact \<open>" A1"\<close> in the store, the add of
  another candidate with the id \<open>" A1"\<close> is answered 201 and replaces the stored record.
  The array-backed server answers 201 too and then holds two records with the id
  \<open>" A1"\<close>. (An id without surrounding whitespace is rejected as a duplicate:
  \<open>post_contacts_rejects_trimmed_duplicate\<close>.)
\<close>

theorem post_contacts_overwrites_untrimmed_duplicate:
  "post_contacts joSpace [] =
     ((201, Message ''Contact added successfully''), [('' A1'', joSpace)])
   \<and> Map_has [('' A1'', joSpace)] '' A1''
   \<and> id' alSpace = Some '' A1''
   \<and> post_contacts alSpace [('' A1'', joSpace)] =
     ((201, Message ''Contact added successfully''), [('' A1'', alSpace)])
   \<and> alSpace \<noteq> joSpace
   \<and> post_contacts_arr alSpace [joSpace] =
     ((201, Message ''Contact added successfully''), [joSpace, alSpace])"
  by code_simp

section \<open>Phone validation\<close>

lemma rmatch_digits:
  "t \<in> set (rmatch r s) \<Longrightarrow> \<exists>u. s = u @ t \<and> minDigits r \<le> length (filter isDigit u)"
proof (induction r s arbitrary: t rule: rmatch.induct)
  case (1 s)
  then show ?case by simp
next
  case (2 P s)
  then show ?case
    by (cases s) (auto split: if_splits)
next
  case (3 a b s)
  from "3.prems" obtain t' where t': "t' \<in> set (rmatch a s)" and t: "t \<in> set (rmatch b t')"
    by auto
  from "3.IH"(1)[OF t'] obtain u1 where u1: "s = u1 @ t'" "minDigits a \<le> length (filter isDigit u1)"
    by blast
  from "3.IH"(2)[OF t' t] obtain u2 where u2: "t' = u2 @ t" "minDigits b \<le> length (filter isDigit u2)"
    by blast
  have "s = (u1 @ u2) @ t \<and> minDigits (Seq a b) \<le> length (filter isDigit (u1 @ u2))"
    using u1 u2 by simp
  then show ?case by blast
next
  case (4 a s)
  then show ?case by auto
next
  case (5 a s)
  from "5.prems" have "t \<in> set (concat (map (\<lambda>t.
      (if length t < length s then rmatch (Plus a) t else []) @ [t]) (rmatch a s)))"
    by (subst (asm) rmatch.simps(5))
  then obtain t' where t': "t' \<in> set (rmatch a s)"
    and t: "t = t' \<or> (length t' < length s \<and> t \<in> set (rmatch (Plus a) t'))"
    by (auto simp del: rmatch.simps split: if_splits)
  from "5.IH"(1)[OF t'] obtain u1 where u1: "s = u1 @ t'" "minDigits a \<le> length (filter isDigit u1)"
    by blast
  from t show ?case
  proof
    assume "t = t'"
    with u1 show ?thesis by auto
  next
    assume r: "length t' < length s \<and> t \<in> set (rmatch (Plus a) t')"
    from "5.IH"(2)[OF t' _ ] r obtain u2 where u2: "t' = u2 @ t"
      by blast
    have "s = (u1 @ u2) @ t \<and> minDigits (Plus a) \<le> length (filter isDigit (u1 @ u2))"
      using u1 u2 by simp
    then show ?thesis by blast
  qed
qed

lemma minDigits_digit: "minDigits (Class isDigit) = 1"
  by simp

lemma minDigits_times: "minDigits (times n r) = n * minDigits r"
  by (induction n) auto

lemma minDigits_phoneRegex: "minDigits phoneRegex = 10"
  unfolding phoneRegex_def
  by (simp only: minDigits.simps(3,4) minDigits_times minDigits_digit)

lemma test_phoneRegex_digits: "test phoneRegex p \<Longrightarrow> 10 \<le> length (filter isDigit p)"
  using rmatch_digits[of "[]" phoneRegex p] by (simp add: test_def minDigits_phoneRegex)

lemma digits_of_cleaned:
  "filter isDigit (filter (\<lambda>c. \<not> (isSpace c \<or> c = CHR ''-'' \<or> c = CHR ''('' \<or> c = CHR '')'')) p)
   = filter isDigit p"
proof -
  have "isDigit c \<Longrightarrow> \<not> (isSpace c \<or> c = CHR ''-'' \<or> c = CHR ''('' \<or> c = CHR '')'')" for c
    by (auto simp: isDigit_def isSpace_def)
  then show ?thesis
    by (induction p) auto
qed

lemma in_set_not_Nil: "x \<in> set xs \<Longrightarrow> xs \<noteq> []"
  by (cases xs) auto

lemma in_dropWhile: "x \<in> set xs \<Longrightarrow> \<not> P x \<Longrightarrow> x \<in> set (dropWhile P xs)"
  by (induction xs) auto

lemma trim_not_Nil: "x \<in> set s \<Longrightarrow> \<not> isSpace x \<Longrightarrow> trim s \<noteq> []"
proof -
  assume a: "x \<in> set s" "\<not> isSpace x"
  then have "x \<in> set (rev (dropWhile isSpace s))"
    by (simp add: in_dropWhile)
  then have "x \<in> set (dropWhile isSpace (rev (dropWhile isSpace s)))"
    using a(2) by (rule in_dropWhile)
  then have "dropWhile isSpace (rev (dropWhile isSpace s)) \<noteq> []"
    by (rule in_set_not_Nil)
  then show ?thesis
    by (simp add: trim_def)
qed

lemma digits_not_missing:
  assumes "10 \<le> length (filter isDigit p)"
  shows "\<not> missing (Some p)"
proof -
  from assms have "filter isDigit p \<noteq> []" by auto
  then obtain x where x: "x \<in> set p" "isDigit x"
    by (auto simp: filter_empty_conv)
  then have "\<not> isSpace x"
    by (auto simp: isDigit_def isSpace_def)
  then have "trim p \<noteq> []" by (rule trim_not_Nil[OF x(1)])
  moreover from x have "p \<noteq> []" by auto
  ultimately show ?thesis by (simp add: missing_def)
qed

lemma in_conc: "(x \<in> conc A B) = (\<exists>u v. x = u @ v \<and> u \<in> A \<and> v \<in> B)"
  by (auto simp: conc_def)

declare rmatch.simps(5) [simp del]

lemma rmatch_Plus_mem:
  "(t \<in> set (rmatch (Plus a) s)) =
     (\<exists>t'\<in>set (rmatch a s). t = t' \<or> (length t' < length s \<and> t \<in> set (rmatch (Plus a) t')))"
  by (subst rmatch.simps(5)) (auto split: if_splits)

lemma lang_Plus_I: "ws \<noteq> [] \<Longrightarrow> set ws \<subseteq> lang a \<Longrightarrow> concat ws \<in> lang (Plus a)"
  by auto

lemma rmatch_lang: "(t \<in> set (rmatch r s)) = (\<exists>u. u \<in> lang r \<and> s = u @ t)"
proof (induction r s arbitrary: t rule: rmatch.induct)
  case (1 s)
  show ?case by auto
next
  case (2 P s)
  show ?case by (cases s) auto
next
  case (3 a b s)
  show ?case
  proof
    assume "t \<in> set (rmatch (Seq a b) s)"
    then obtain t' where t': "t' \<in> set (rmatch a s)" and t: "t \<in> set (rmatch b t')"
      by auto
    from t' "3.IH"(1)[of t'] obtain u1 where u1: "u1 \<in> lang a" "s = u1 @ t'" by blast
    from t "3.IH"(2)[OF t', of t] obtain u2 where u2: "u2 \<in> lang b" "t' = u2 @ t" by blast
    have "u1 @ u2 \<in> lang (Seq a b) \<and> s = (u1 @ u2) @ t"
      using u1 u2 by (auto simp: in_conc)
    then show "\<exists>u. u \<in> lang (Seq a b) \<and> s = u @ t" by blast
  next
    assume "\<exists>u. u \<in> lang (Seq a b) \<and> s = u @ t"
    then obtain u1 u2 where u: "u1 \<in> lang a" "u2 \<in> lang b" "s = (u1 @ u2) @ t"
      by (auto simp: in_conc)
    then have t': "u2 @ t \<in> set (rmatch a s)"
      using "3.IH"(1)[of "u2 @ t"] by auto
    from u(2) have "t \<in> set (rmatch b (u2 @ t))"
      using "3.IH"(2)[OF t', of t] by auto
    with t' show "t \<in> set (rmatch (Seq a b) s)" by auto
  qed
next
  case (4 a s)
  show ?case using "4.IH"[of t] by auto
next
  case (5 a s)
  show ?case
  proof
    assume "t \<in> set (rmatch (Plus a) s)"
    then obtain t' where t': "t' \<in> set (rmatch a s)"
      and t: "t = t' \<or> (length t' < length s \<and> t \<in> set (rmatch (Plus a) t'))"
      by (auto simp: rmatch_Plus_mem[of t a s])
    from t' "5.IH"(1)[of t'] obtain u1 where u1: "u1 \<in> lang a" "s = u1 @ t'" by blast
    from t show "\<exists>u. u \<in> lang (Plus a) \<and> s = u @ t"
    proof
      assume "t = t'"
      have "concat [u1] \<in> lang (Plus a)"
        by (rule lang_Plus_I) (use u1 in auto)
      moreover have "s = concat [u1] @ t"
        using u1 \<open>t = t'\<close> by simp
      ultimately show ?thesis by blast
    next
      assume r: "length t' < length s \<and> t \<in> set (rmatch (Plus a) t')"
      with "5.IH"(2)[OF t', of t] obtain u2 where u2: "u2 \<in> lang (Plus a)" "t' = u2 @ t"
        by blast
      then obtain ws where ws: "u2 = concat ws" "ws \<noteq> []" "set ws \<subseteq> lang a" by auto
      have "concat (u1 # ws) \<in> lang (Plus a)"
        by (rule lang_Plus_I) (use ws u1 in auto)
      moreover have "s = concat (u1 # ws) @ t"
        using u1 u2 ws by simp
      ultimately show ?thesis by blast
    qed
  next
    assume "\<exists>u. u \<in> lang (Plus a) \<and> s = u @ t"
    then obtain ws where ws: "ws \<noteq> []" "set ws \<subseteq> lang a" "s = concat ws @ t" by auto
    let ?ws = "filter (\<lambda>w. w \<noteq> []) ws"
    have c: "concat ?ws = concat ws"
      by (induction ws) auto
    show "t \<in> set (rmatch (Plus a) s)"
    proof (cases ?ws)
      case Nil
      then have e: "\<forall>w\<in>set ws. w = []" by (auto simp: filter_empty_conv)
      from ws(1) obtain w where "w \<in> set ws" by (cases ws) auto
      with e ws(2) have "[] \<in> lang a" by auto
      moreover from Nil c ws(3) have "s = t" by simp
      ultimately have "t \<in> set (rmatch a s)"
        using "5.IH"(1)[of t] by auto
      then show ?thesis
        by (auto simp: rmatch_Plus_mem[of t a s])
    next
      case (Cons w rest)
      then have "set (w # rest) = {v \<in> set ws. v \<noteq> []}"
        by (metis set_filter)
      then have "w \<in> {v \<in> set ws. v \<noteq> []}" "set rest \<subseteq> {v \<in> set ws. v \<noteq> []}"
        by auto
      then have w: "w \<noteq> []" "w \<in> lang a" and rest: "set rest \<subseteq> lang a"
        using ws(2) by auto
      let ?x = "concat rest @ t"
      have s: "s = w @ ?x"
        using ws(3) c Cons by (metis append_assoc concat.simps(2))
      then have x: "?x \<in> set (rmatch a s)"
        using "5.IH"(1)[of ?x] w by auto
      have l: "length ?x < length s"
        using s w by auto
      show ?thesis
      proof (cases "rest = []")
        case True
        with x show ?thesis
          by (auto simp: rmatch_Plus_mem[of t a s])
      next
        case False
        with rest have "concat rest \<in> lang (Plus a)" by (intro lang_Plus_I)
        then have "t \<in> set (rmatch (Plus a) ?x)"
          using "5.IH"(2)[OF x l, of t] by auto
        with x l have "\<exists>t'\<in>set (rmatch a s).
            t = t' \<or> (length t' < length s \<and> t \<in> set (rmatch (Plus a) t'))"
          by blast
        then show ?thesis
          by (simp only: rmatch_Plus_mem[of t a s])
      qed
    qed
  qed
qed

lemma test_lang: "test r s = (s \<in> lang r)"
  by (simp add: test_def rmatch_lang)

lemma in_conc_Class: "(x \<in> conc (lang (Class P)) B) = (\<exists>c v. x = c # v \<and> P c \<and> v \<in> B)"
proof
  assume "x \<in> conc (lang (Class P)) B"
  then obtain u v where uv: "x = u @ v" "u \<in> lang (Class P)" "v \<in> B"
    unfolding in_conc by blast
  from uv(2) obtain c where "u = [c]" "P c" by auto
  with uv have "x = c # v \<and> P c \<and> v \<in> B" by simp
  then show "\<exists>c v. x = c # v \<and> P c \<and> v \<in> B" by blast
next
  assume "\<exists>c v. x = c # v \<and> P c \<and> v \<in> B"
  then obtain c v where cv: "x = c # v" "P c" "v \<in> B" by blast
  then have "x = [c] @ v \<and> [c] \<in> lang (Class P) \<and> v \<in> B" by simp
  then show "x \<in> conc (lang (Class P)) B"
    unfolding in_conc by blast
qed

lemma lang_times_Class: "(d \<in> lang (times n (Class P))) = (length d = n \<and> list_all P d)"
proof (induction n arbitrary: d)
  case 0
  show ?case by auto
next
  case (Suc n)
  show ?case
    unfolding times.simps lang.simps(3) in_conc_Class Suc
    by (cases d) auto
qed

lemma lang_Opt_lit: "(s \<in> lang (Opt (lit x))) = optChar x s"
  by (auto simp: lit_def optChar_def)

lemma lang_Opt_sep: "(s \<in> lang (Opt (Class isSep))) = optSep s"
  by (auto simp: optSep_def)

lemma concI: "u \<in> A \<Longrightarrow> v \<in> B \<Longrightarrow> u @ v \<in> conc A B"
  unfolding in_conc by blast

lemma concE:
  assumes "x \<in> conc A B"
  obtains u v where "x = u @ v" "u \<in> A" "v \<in> B"
  using assms unfolding in_conc by blast

lemma lang_prefix:
  "(u \<in> lang (Opt (Seq (Opt (lit CHR ''+'')) (Seq (Opt (lit CHR ''1'')) (Opt (Class isSep))))))
   = (\<exists>plus one s0. u = plus @ one @ s0
        \<and> optChar CHR ''+'' plus \<and> optChar CHR ''1'' one \<and> optSep s0)"
proof
  assume a: "u \<in> lang (Opt (Seq (Opt (lit CHR ''+''))
                (Seq (Opt (lit CHR ''1'')) (Opt (Class isSep)))))"
  show "\<exists>plus one s0. u = plus @ one @ s0
        \<and> optChar CHR ''+'' plus \<and> optChar CHR ''1'' one \<and> optSep s0"
  proof (cases "u = []")
    case True
    then have "u = [] @ [] @ [] \<and> optChar CHR ''+'' [] \<and> optChar CHR ''1'' [] \<and> optSep []"
      by (simp add: optChar_def optSep_def)
    then show ?thesis by blast
  next
    case False
    with a have "u \<in> conc (lang (Opt (lit CHR ''+'')))
                   (conc (lang (Opt (lit CHR ''1''))) (lang (Opt (Class isSep))))"
      by simp
    then obtain plus r where 1: "u = plus @ r" "plus \<in> lang (Opt (lit CHR ''+''))"
      "r \<in> conc (lang (Opt (lit CHR ''1''))) (lang (Opt (Class isSep)))"
      by (rule concE)
    from 1(3) obtain one s0 where 2: "r = one @ s0" "one \<in> lang (Opt (lit CHR ''1''))"
      "s0 \<in> lang (Opt (Class isSep))"
      by (rule concE)
    from 1 2 have "u = plus @ one @ s0
        \<and> optChar CHR ''+'' plus \<and> optChar CHR ''1'' one \<and> optSep s0"
      by (simp only: lang_Opt_lit lang_Opt_sep simp_thms)
    then show ?thesis by blast
  qed
next
  assume "\<exists>plus one s0. u = plus @ one @ s0
        \<and> optChar CHR ''+'' plus \<and> optChar CHR ''1'' one \<and> optSep s0"
  then obtain plus one s0 where s: "u = plus @ one @ s0"
    "optChar CHR ''+'' plus" "optChar CHR ''1'' one" "optSep s0"
    by blast
  have "plus @ one @ s0 \<in> conc (lang (Opt (lit CHR ''+'')))
                   (conc (lang (Opt (lit CHR ''1''))) (lang (Opt (Class isSep))))"
    by (intro concI) (simp_all only: lang_Opt_lit lang_Opt_sep s)
  with s(1) show "u \<in> lang (Opt (Seq (Opt (lit CHR ''+''))
                (Seq (Opt (lit CHR ''1'')) (Opt (Class isSep)))))"
    by simp
qed

lemma lang_phoneRegex: "(p \<in> lang phoneRegex) = phoneShape p"
proof
  assume "p \<in> lang phoneRegex"
  then have "p \<in> conc (lang (Opt (Seq (Opt (lit CHR ''+''))
                (Seq (Opt (lit CHR ''1'')) (Opt (Class isSep))))))
      (conc (lang (Opt (lit CHR ''(''))) (conc (lang (times 3 (Class isDigit)))
      (conc (lang (Opt (lit CHR '')''))) (conc (lang (Opt (Class isSep)))
      (conc (lang (times 3 (Class isDigit))) (conc (lang (Opt (Class isSep)))
        (lang (times 4 (Class isDigit)))))))))"
    unfolding phoneRegex_def lang.simps(3) .
  then obtain pre r1 where 1: "p = pre @ r1"
    "pre \<in> lang (Opt (Seq (Opt (lit CHR ''+''))
                (Seq (Opt (lit CHR ''1'')) (Opt (Class isSep)))))"
    "r1 \<in> conc (lang (Opt (lit CHR ''(''))) (conc (lang (times 3 (Class isDigit)))
      (conc (lang (Opt (lit CHR '')''))) (conc (lang (Opt (Class isSep)))
      (conc (lang (times 3 (Class isDigit))) (conc (lang (Opt (Class isSep)))
        (lang (times 4 (Class isDigit))))))))"
    by (rule concE)
  from 1(3) obtain lp r2 where 2: "r1 = lp @ r2" "lp \<in> lang (Opt (lit CHR ''(''))"
    "r2 \<in> conc (lang (times 3 (Class isDigit)))
      (conc (lang (Opt (lit CHR '')''))) (conc (lang (Opt (Class isSep)))
      (conc (lang (times 3 (Class isDigit))) (conc (lang (Opt (Class isSep)))
        (lang (times 4 (Class isDigit)))))))"
    by (rule concE)
  from 2(3) obtain d1 r3 where 3: "r2 = d1 @ r3" "d1 \<in> lang (times 3 (Class isDigit))"
    "r3 \<in> conc (lang (Opt (lit CHR '')''))) (conc (lang (Opt (Class isSep)))
      (conc (lang (times 3 (Class isDigit))) (conc (lang (Opt (Class isSep)))
        (lang (times 4 (Class isDigit))))))"
    by (rule concE)
  from 3(3) obtain rp r4 where 4: "r3 = rp @ r4" "rp \<in> lang (Opt (lit CHR '')''))"
    "r4 \<in> conc (lang (Opt (Class isSep)))
      (conc (lang (times 3 (Class isDigit))) (conc (lang (Opt (Class isSep)))
        (lang (times 4 (Class isDigit)))))"
    by (rule concE)
  from 4(3) obtain s1 r5 where 5: "r4 = s1 @ r5" "s1 \<in> lang (Opt (Class isSep))"
    "r5 \<in> conc (lang (times 3 (Class isDigit))) (conc (lang (Opt (Class isSep)))
        (lang (times 4 (Class isDigit))))"
    by (rule concE)
  from 5(3) obtain d2 r6 where 6: "r5 = d2 @ r6" "d2 \<in> lang (times 3 (Class isDigit))"
    "r6 \<in> conc (lang (Opt (Class isSep))) (lang (times 4 (Class isDigit)))"
    by (rule concE)
  from 6(3) obtain s2 d3 where 7: "r6 = s2 @ d3" "s2 \<in> lang (Opt (Class isSep))"
    "d3 \<in> lang (times 4 (Class isDigit))"
    by (rule concE)
  from 1(2) obtain plus one s0 where 0: "pre = plus @ one @ s0"
    "optChar CHR ''+'' plus" "optChar CHR ''1'' one" "optSep s0"
    unfolding lang_prefix by blast
  have "p = plus @ one @ s0 @ lp @ d1 @ rp @ s1 @ d2 @ s2 @ d3"
    by (simp add: 0(1) 1(1) 2(1) 3(1) 4(1) 5(1) 6(1) 7(1))
  moreover have "optChar CHR ''('' lp" "optChar CHR '')'' rp" "optSep s1" "optSep s2"
    using 2(2) 4(2) 5(2) 7(2) by (simp_all only: lang_Opt_lit lang_Opt_sep)
  moreover have "digitGroup 3 d1" "digitGroup 3 d2" "digitGroup 4 d3"
    using 3(2) 6(2) 7(3) by (simp_all only: lang_times_Class digitGroup_def)
  ultimately show "phoneShape p"
    unfolding phoneShape_def using 0(2,3,4) by blast
next
  assume "phoneShape p"
  then obtain plus one s0 lp d1 rp s1 d2 s2 d3 where
    p: "p = plus @ one @ s0 @ lp @ d1 @ rp @ s1 @ d2 @ s2 @ d3"
    and a: "optChar CHR ''+'' plus" "optChar CHR ''1'' one" "optSep s0"
    and b: "optChar CHR ''('' lp" "digitGroup 3 d1" "optChar CHR '')'' rp"
    and c: "optSep s1" "digitGroup 3 d2" "optSep s2" "digitGroup 4 d3"
    unfolding phoneShape_def by blast
  have pre: "plus @ one @ s0 \<in> lang (Opt (Seq (Opt (lit CHR ''+''))
                (Seq (Opt (lit CHR ''1'')) (Opt (Class isSep)))))"
    unfolding lang_prefix using a by blast
  have m: "lp \<in> lang (Opt (lit CHR ''(''))" "rp \<in> lang (Opt (lit CHR '')''))"
    "s1 \<in> lang (Opt (Class isSep))" "s2 \<in> lang (Opt (Class isSep))"
    using b c by (simp_all only: lang_Opt_lit lang_Opt_sep)
  have d: "d1 \<in> lang (times 3 (Class isDigit))" "d2 \<in> lang (times 3 (Class isDigit))"
    "d3 \<in> lang (times 4 (Class isDigit))"
    using b c by (simp_all only: lang_times_Class digitGroup_def)
  have "(plus @ one @ s0) @ lp @ d1 @ rp @ s1 @ d2 @ s2 @ d3 \<in> lang phoneRegex"
    unfolding phoneRegex_def lang.simps(3)
    by (intro concI pre m d)
  then show "p \<in> lang phoneRegex"
    by (simp add: p)
qed

lemma test_phoneRegex: "test phoneRegex p = phoneShape p"
  by (simp only: test_lang lang_phoneRegex)

lemma validatePhone_examples:
  "validatePhone (Some ''555-123-4567'') = None"
  "validatePhone (Some ''+1-555-123-4567'') = None"
  "validatePhone (Some ''(555) 123-4567'') = None"
  "validatePhone (Some ''bad'') = Some ''Phone number must have at least 10 digits''"
  "validatePhone (Some ''12345678901234'') =
     Some ''Please enter a valid phone number (e.g., +1-555-123-4567 or 555-123-4567)''"
  "validatePhone (Some ''+5551234567'') = None"
  "validatePhone (Some ''555)123-4567'') = None"
  "validatePhone (Some ''1 5551234567'') = None"
  "validatePhone_db (Some ''555-123-4567'') = None"
  "validatePhone_db (Some ''12345678901234'') = Some ''Invalid phone''"
  by code_simp+

lemma validatePhone_test:
  "(validatePhone (Some p) = None) =
     (10 \<le> length (filter isDigit
        (filter (\<lambda>c. \<not> (isSpace c \<or> c = CHR ''-'' \<or> c = CHR ''('' \<or> c = CHR '')'')) p))
      \<and> test phoneRegex p)
   \<and> (validatePhone_db (Some p) = None) =
     (10 \<le> length (filter isDigit
        (filter (\<lambda>c. \<not> (isSpace c \<or> c = CHR ''-'' \<or> c = CHR ''('' \<or> c = CHR '')'')) p))
      \<and> test phoneRegex p)"
proof -
  have 1: "(validatePhone (Some p) = None) = (10 \<le> length (filter isDigit p) \<and> test phoneRegex p)"
    using digits_not_missing[of p]
    unfolding validatePhone_def Let_def digits_of_cleaned
    by auto
  have 2: "(validatePhone_db (Some p) = None) = (10 \<le> length (filter isDigit p) \<and> test phoneRegex p)"
  proof (cases "test phoneRegex p")
    case True
    then have d: "10 \<le> length (filter isDigit p)" by (rule test_phoneRegex_digits)
    then have "p \<noteq> []" by auto
    with True d show ?thesis by (simp add: validatePhone_db_def truthy_def)
  next
    case False
    then show ?thesis by (auto simp: validatePhone_db_def truthy_def)
  qed
  show ?thesis
    by (simp only: digits_of_cleaned 1 2 simp_thms)
qed

lemma nanpLike_spec_examples:
  "nanpLike_spec ''555-123-4567''" "nanpLike_spec ''+1-555-123-4567''"
  "nanpLike_spec ''+1 (555) 123-4567''" "nanpLike_spec ''5551234567''"
  "nanpLike_spec ''+15551234567''" "\<not> nanpLike_spec ''12345678901234''"
  "\<not> nanpLike_spec ''bad''"
  by code_simp+

text \<open>
  C6, as the claim states it, fails: the pattern of \<open>validatePhone\<close> is looser than an
  optional leading \<open>+1\<close> and optional separators between the digit groups. Phone
  validation accepts \<open>+5551234567\<close> (a \<open>+\<close> without the \<open>1\<close>), \<open>-5551234567\<close> (a
  separator in front) and \<open>(555-123-4567\<close> (an opening parenthesis that is never
  closed); none of them has the shape the claim describes, which the usual ways of
  writing a number have.
\<close>

theorem validatePhone_accepts_outside_nanp_pattern:
  "validatePhone (Some ''+5551234567'') = None \<and> \<not> nanpLike_spec ''+5551234567''
   \<and> validatePhone (Some ''-5551234567'') = None \<and> \<not> nanpLike_spec ''-5551234567''
   \<and> validatePhone (Some ''(555-123-4567'') = None \<and> \<not> nanpLike_spec ''(555-123-4567''
   \<and> nanpLike_spec ''555-123-4567'' \<and> nanpLike_spec ''+1-555-123-4567''
   \<and> nanpLike_spec ''(555) 123-4567''"
  by code_simp

text \<open>
  C6, amended. Phone validation accepts a string exactly when at least 10 digits remain
  after stripping whitespace, hyphens and parentheses and the string as it was sent has
  the shape \<open>phoneShape\<close>: an optional \<open>+\<close>, an optional \<open>1\<close>, an optional separator, an
  optional \<open>(\<close>, three digits, an optional \<open>)\<close>, an optional separator, three digits, an
  optional separator and four digits, each option on its own, a separator being a
  hyphen, a dot or a whitespace character. Every string of this shape has its 10 digits,
  so the shape alone decides; the validator of the database-backed server, which tests
  the pattern only, accepts the same strings. A string that fails either step is
  rejected: \<open>12345678901234\<close> for its shape, \<open>bad\<close> for its digits.
\<close>

theorem validatePhone_accepts_iff_phoneShape:
  "(validatePhone (Some p) = None) =
     (10 \<le> length (filter isDigit
        (filter (\<lambda>c. \<not> (isSpace c \<or> c = CHR ''-'' \<or> c = CHR ''('' \<or> c = CHR '')'')) p))
      \<and> phoneShape p)
   \<and> (validatePhone (Some p) = None) = phoneShape p
   \<and> (validatePhone_db (Some p) = None) = phoneShape p
   \<and> validatePhone (Some ''555-123-4567'') = None
   \<and> validatePhone (Some ''+1-555-123-4567'') = None
   \<and> validatePhone (Some ''12345678901234'') =
       Some ''Please enter a valid phone number (e.g., +1-555-123-4567 or 555-123-4567)''
   \<and> validatePhone (Some ''bad'') = Some ''Phone number must have at least 10 digits''"
proof -
  note t = validatePhone_test[of p, unfolded test_phoneRegex]
  have d: "phoneShape p \<Longrightarrow> 10 \<le> length (filter isDigit
        (filter (\<lambda>c. \<not> (isSpace c \<or> c = CHR ''-'' \<or> c = CHR ''('' \<or> c = CHR '')'')) p))"
    using test_phoneRegex_digits[of p] by (simp only: test_phoneRegex digits_of_cleaned)
  have 1: "(validatePhone (Some p) = None) =
     (10 \<le> length (filter isDigit
        (filter (\<lambda>c. \<not> (isSpace c \<or> c = CHR ''-'' \<or> c = CHR ''('' \<or> c = CHR '')'')) p))
      \<and> phoneShape p)"
    by (rule t[THEN conjunct1])
  have 2: "(validatePhone (Some p) = None) = phoneShape p"
    using 1 d by blast
  have 3: "(validatePhone_db (Some p) = None) = phoneShape p"
    using t[THEN conjunct2] d by blast
  have 4: "validatePhone (Some ''555-123-4567'') = None"
    "validatePhone (Some ''+1-555-123-4567'') = None"
    "validatePhone (Some ''12345678901234'') =
       Some ''Please enter a valid phone number (e.g., +1-555-123-4567 or 555-123-4567)''"
    "validatePhone (Some ''bad'') = Some ''Phone number must have at least 10 digits''"
    by code_simp+
  show ?thesis
    by (rule conjI[OF 1 conjI[OF 2 conjI[OF 3 conjI[OF 4(1) conjI[OF 4(2) conjI[OF 4(3) 4(4)]]]]]])
qed

section \<open>The stored records pass validation\<close>

lemma values_Map_set: "set (Map_values (Map_set m k v)) \<subseteq> insert v (set (Map_values m))"
  by (induction m) (force simp: Map_values_def split: if_splits)+

lemma list_all_Map_set:
  "P v \<Longrightarrow> list_all P (Map_values m) \<Longrightarrow> list_all P (Map_values (Map_set m k v))"
  using values_Map_set[of m k v] by (auto simp: list_all_iff)

lemma passes_validateContact: "passes c = (validateContact contacts c False = [])"
  unfolding passes_def by (subst validateContact_store_irrelevant[of "[]" c contacts]) simp

lemma passes_validateContact_arr: "passes c = (validateContact_arr cs c False = [])"
  by (simp add: passes_def validateContact_ok validateContact_arr_ok idError_None idError_arr_None)

lemma validateContact_True_passes: "validateContact contacts c True = [] \<Longrightarrow> passes c"
  by (auto simp: passes_def validateContact_ok idError_None)

lemma validateContact_arr_True_passes: "validateContact_arr cs c True = [] \<Longrightarrow> passes c"
  by (auto simp: passes_def validateContact_ok validateContact_arr_ok idError_None
      idError_arr_None)

lemma post_contacts_passes:
  assumes "list_all passes (Map_values contacts)"
  shows "list_all passes (Map_values (snd (post_contacts c contacts)))"
  using assms
  by (auto simp: post_contacts_cases validateContact_True_passes list_all_Map_set
      split: option.splits)

lemma delete_contacts_id_passes:
  assumes "list_all passes (Map_values contacts)"
  shows "list_all passes (Map_values (snd (delete_contacts_id idP contacts)))"
  using assms
  by (auto simp: delete_contacts_id_def Map_delete_def Map_values_def list_all_iff
      split: bool.splits)

lemma put_contacts_id_passes:
  assumes "list_all passes (Map_values contacts)"
    and "fst (fst (put_contacts_id idP b contacts)) \<noteq> 400"
  shows "list_all passes (Map_values (snd (put_contacts_id idP b contacts)))"
proof (cases "Map_get contacts idP")
  case None
  then show ?thesis using assms(1) by (simp add: put_contacts_id_absent)
next
  case (Some old)
  let ?s = "Map_set contacts idP (merged old b)"
  have "validateContact ?s (merged old b) False = []"
    using assms(2) by (auto simp: put_contacts_id_found[OF Some] Let_def Map_keys_def split: if_splits)
  then have "passes (merged old b)"
    by (simp add: passes_validateContact[of _ ?s])
  then have "list_all passes (Map_values ?s)"
    using assms(1) by (rule list_all_Map_set)
  then show ?thesis
    by (simp add: put_contacts_id_store[OF Some])
qed

lemma findIndex_Some: "findIndex P xs = Some i \<Longrightarrow> i < length xs \<and> P (xs ! i)"
  by (induction xs arbitrary: i) (auto split: if_splits)

lemma post_contacts_arr_passes:
  assumes "list_all passes cs"
  shows "list_all passes (snd (post_contacts_arr c cs))"
  using assms by (auto simp: post_contacts_arr_cases validateContact_arr_True_passes)

lemma delete_contacts_id_arr_passes:
  assumes "list_all passes cs"
  shows "list_all passes (snd (delete_contacts_id_arr idP cs))"
  using assms by (auto simp: delete_contacts_id_arr_def Let_def list_all_iff)

lemma passes_iff:
  "passes c =
     ((\<exists>i. id' c = Some i \<and> trim i \<noteq> [] \<and> length (trim i) \<le> 10)
      \<and> \<not> missing (firstName c) \<and> \<not> missing (lastName c)
      \<and> validateEmail (email c) = None \<and> validatePhone (phone c) = None
      \<and> validateAddress (address c) = None)"
  by (simp add: passes_def validateContact_ok idError_None)

lemma put_contacts_id_arr_passes:
  assumes "list_all passes cs"
  shows "list_all passes (snd (put_contacts_id_arr idP b cs))"
proof (cases "findIndex (\<lambda>c. id' c = Some idP) cs")
  case None
  then show ?thesis using assms by (simp add: put_contacts_id_arr_def)
next
  case (Some i)
  let ?new = "\<lparr>id' = Some idP, firstName = firstName b, lastName = lastName b,
               phone = phone b, address = address b, email = email b\<rparr>"
  show ?thesis
  proof (cases "validateContact_arr cs b False = []")
    case False
    then show ?thesis using assms Some
      by (simp add: put_contacts_id_arr_def Let_def Map_keys_def)
  next
    case True
    then have pb: "passes b" by (simp add: passes_validateContact_arr[of b cs])
    from findIndex_Some[OF Some] have "i < length cs" "id' (cs ! i) = Some idP"
      by auto
    with assms have "passes (cs ! i)" by (simp add: list_all_length)
    with \<open>id' (cs ! i) = Some idP\<close> have "trim idP \<noteq> [] \<and> length (trim idP) \<le> 10"
      by (auto simp: passes_iff)
    with pb have "passes ?new" by (simp add: passes_iff)
    then have "list_all passes (cs[i := ?new])"
      using assms set_update_subset_insert[of cs i ?new] by (auto simp: list_all_iff)
    then show ?thesis using Some True
      by (simp add: put_contacts_id_arr_def Let_def Map_keys_def)
  qed
qed

text \<open>
  C3, as the claim states it, fails: every stored record should have an address of at
  most 200 characters, but the address rule measures the trimmed address. The add of
  Jo with an address of 200 letters and a space is answered 201, and the stored record
  breaks the address rule of the claim.
\<close>

theorem post_contacts_stores_long_address:
  "post_contacts longAddress [] =
     ((201, Message ''Contact added successfully''), [(''A1'', longAddress)])
   \<and> \<not> fieldRules_spec longAddress
   \<and> post_contacts_arr longAddress [] =
     ((201, Message ''Contact added successfully''), [longAddress])"
  by code_simp

text \<open>
  C3, amended. Add, remove and every update that is not answered 400 keep the
  invariant that each stored record passes the validation of the server: its id,
  first name and last name are non-empty after trimming, the trimmed id has at most 10
  characters, the email matches the pattern, the phone passes phone validation and the
  address, if present, has at most 200 characters after trimming. In the array-backed
  server every update keeps it.
\<close>

theorem operations_keep_stored_records_valid:
  "(list_all passes (Map_values contacts) \<longrightarrow>
      list_all passes (Map_values (snd (post_contacts c contacts)))
      \<and> list_all passes (Map_values (snd (delete_contacts_id idP contacts)))
      \<and> (fst (fst (put_contacts_id idP b contacts)) \<noteq> 400 \<longrightarrow>
           list_all passes (Map_values (snd (put_contacts_id idP b contacts)))))
   \<and> (list_all passes cs \<longrightarrow>
      list_all passes (snd (post_contacts_arr c cs))
      \<and> list_all passes (snd (delete_contacts_id_arr idP cs))
      \<and> list_all passes (snd (put_contacts_id_arr idP b cs)))
   \<and> passes c =
       ((\<exists>i. id' c = Some i \<and> trim i \<noteq> [] \<and> length (trim i) \<le> 10)
        \<and> \<not> missing (firstName c) \<and> \<not> missing (lastName c)
        \<and> validateEmail (email c) = None \<and> validatePhone (phone c) = None
        \<and> validateAddress (address c) = None)"
  using post_contacts_passes[of contacts c] delete_contacts_id_passes[of contacts idP]
    put_contacts_id_passes[of contacts idP b] post_contacts_arr_passes[of cs c]
    delete_contacts_id_arr_passes[of cs idP] put_contacts_id_arr_passes[of cs idP b]
    passes_iff[of c]
  by blast

text \<open>
  The store holds Jo; a contact with the id \<open>" A1"\<close> is added, \<open>A1\<close> is removed, and
  \<open>A1\<close> is updated with a new email.
\<close>

theorem operations_keep_stored_records_valid_witness:
  "list_all passes (Map_values [(''A1'', jo)])
   \<and> list_all passes [jo]
   \<and> fst (fst (put_contacts_id ''A1'' emptyFields [(''A1'', jo)])) \<noteq> 400
   \<and> list_all passes (Map_values (snd (post_contacts joSpace [(''A1'', jo)])))
   \<and> list_all passes (Map_values (snd (delete_contacts_id ''A1'' [(''A1'', jo)])))
   \<and> list_all passes (Map_values (snd (put_contacts_id ''A1'' emptyFields [(''A1'', jo)])))
   \<and> list_all passes (snd (post_contacts_arr joSpace [jo]))
   \<and> list_all passes (snd (delete_contacts_id_arr ''A1'' [jo]))
   \<and> list_all passes (snd (put_contacts_id_arr ''A1'' emptyFields [jo]))"
proof -
  note T = operations_keep_stored_records_valid[of "[(''A1'', jo)]" joSpace "''A1''"
      emptyFields "[jo]"]
  have h1: "list_all passes (Map_values [(''A1'', jo)])"
    by code_simp
  have h2: "list_all passes [jo]"
    by code_simp
  have h3: "fst (fst (put_contacts_id ''A1'' emptyFields [(''A1'', jo)])) \<noteq> 400"
    by code_simp
  note A = T[THEN conjunct1, THEN mp, OF h1]
  note A3 = A[THEN conjunct2, THEN conjunct2, THEN mp, OF h3]
  note B = T[THEN conjunct2, THEN conjunct1, THEN mp, OF h2]
  show ?thesis
    by (rule conjI[OF h1 conjI[OF h2 conjI[OF h3 conjI[OF A[THEN conjunct1]
          conjI[OF A[THEN conjunct2, THEN conjunct1] conjI[OF A3 B]]]]]])
qed

section \<open>Lookup by binary search\<close>

lemma bsearch_correct:
  "sorted xs \<Longrightarrow> 0 \<le> l \<Longrightarrow> r < int (length xs) \<Longrightarrow>
   bsearch xs k l r = (\<exists>i. l \<le> i \<and> i \<le> r \<and> xs ! nat i = k)"
proof (induction xs k l r rule: bsearch.induct)
  case (1 xs k l r)
  show ?case
  proof (cases "l \<le> r")
    case False
    then have "\<not> bsearch xs k l r"
      by (subst bsearch.simps) simp
    with False show ?thesis by auto
  next
    case True
    let ?mid = "l + (r - l) div 2"
    have mid: "l \<le> ?mid" "?mid \<le> r"
      using True by auto
    have inr: "0 \<le> ?mid" "?mid < int (length xs)"
      using mid "1.prems" by auto
    then have at: "at xs ?mid = Some (xs ! nat ?mid)"
      by (simp add: at_def)
    show ?thesis
    proof (cases "xs ! nat ?mid = k")
      case eq: True
      have "bsearch xs k l r"
        by (subst bsearch.simps) (simp add: True at eq Let_def del: bsearch.simps)
      moreover have "\<exists>i. l \<le> i \<and> i \<le> r \<and> xs ! nat i = k"
        using mid eq by blast
      ultimately show ?thesis by simp
    next
      case neq: False
      show ?thesis
      proof (cases "xs ! nat ?mid < k")
        case lt: True
        have step: "bsearch xs k l r = bsearch xs k (?mid + 1) r"
          by (subst bsearch.simps) (simp add: True at neq lt Let_def del: bsearch.simps)
        have IH: "bsearch xs k (?mid + 1) r = (\<exists>i. ?mid + 1 \<le> i \<and> i \<le> r \<and> xs ! nat i = k)"
          using "1.IH"(2)[OF True refl at neq lt] "1.prems" inr by simp
        have "(\<exists>i. ?mid + 1 \<le> i \<and> i \<le> r \<and> xs ! nat i = k)
              = (\<exists>i. l \<le> i \<and> i \<le> r \<and> xs ! nat i = k)"
        proof
          assume "\<exists>i. ?mid + 1 \<le> i \<and> i \<le> r \<and> xs ! nat i = k"
          then obtain i where "?mid + 1 \<le> i" "i \<le> r" "xs ! nat i = k" by blast
          with mid have "l \<le> i \<and> i \<le> r \<and> xs ! nat i = k" by auto
          then show "\<exists>i. l \<le> i \<and> i \<le> r \<and> xs ! nat i = k" by blast
        next
          assume "\<exists>i. l \<le> i \<and> i \<le> r \<and> xs ! nat i = k"
          then obtain i where i: "l \<le> i" "i \<le> r" "xs ! nat i = k" by blast
          have "?mid + 1 \<le> i"
          proof (rule ccontr)
            assume "\<not> ?mid + 1 \<le> i"
            then have "nat i \<le> nat ?mid" by auto
            moreover have "nat ?mid < length xs" using inr by auto
            ultimately have "xs ! nat i \<le> xs ! nat ?mid"
              using "1.prems"(1) by (simp add: sorted_nth_mono)
            with i(3) lt show False by auto
          qed
          with i show "\<exists>i. ?mid + 1 \<le> i \<and> i \<le> r \<and> xs ! nat i = k" by blast
        qed
        with step IH show ?thesis by simp
      next
        case nlt: False
        have step: "bsearch xs k l r = bsearch xs k l (?mid - 1)"
          by (subst bsearch.simps) (simp add: True at neq nlt Let_def del: bsearch.simps)
        have IH: "bsearch xs k l (?mid - 1) = (\<exists>i. l \<le> i \<and> i \<le> ?mid - 1 \<and> xs ! nat i = k)"
          using "1.IH"(3)[OF True refl at neq nlt] "1.prems" inr by simp
        have "(\<exists>i. l \<le> i \<and> i \<le> ?mid - 1 \<and> xs ! nat i = k)
              = (\<exists>i. l \<le> i \<and> i \<le> r \<and> xs ! nat i = k)"
        proof
          assume "\<exists>i. l \<le> i \<and> i \<le> ?mid - 1 \<and> xs ! nat i = k"
          then obtain i where "l \<le> i" "i \<le> ?mid - 1" "xs ! nat i = k" by blast
          with mid have "l \<le> i \<and> i \<le> r \<and> xs ! nat i = k" by auto
          then show "\<exists>i. l \<le> i \<and> i \<le> r \<and> xs ! nat i = k" by blast
        next
          assume "\<exists>i. l \<le> i \<and> i \<le> r \<and> xs ! nat i = k"
          then obtain i where i: "l \<le> i" "i \<le> r" "xs ! nat i = k" by blast
          have "i \<le> ?mid - 1"
          proof (rule ccontr)
            assume "\<not> i \<le> ?mid - 1"
            then have "nat ?mid \<le> nat i" by auto
            moreover have "nat i < length xs" using i "1.prems" by auto
            ultimately have "xs ! nat ?mid \<le> xs ! nat i"
              using "1.prems"(1) by (simp add: sorted_nth_mono)
            with i(3) neq nlt show False by auto
          qed
          with i show "\<exists>i. l \<le> i \<and> i \<le> ?mid - 1 \<and> xs ! nat i = k" by blast
        qed
        with step IH show ?thesis by simp
      qed
    qed
  qed
qed

lemma bsearch_sorted_keys:
  "bsearch (sort ks) k 0 (int (length (sort ks)) - 1) = (k \<in> set ks)"
proof -
  have "bsearch (sort ks) k 0 (int (length (sort ks)) - 1)
        = (\<exists>i. 0 \<le> i \<and> i \<le> int (length (sort ks)) - 1 \<and> sort ks ! nat i = k)"
    by (rule bsearch_correct) auto
  also have "\<dots> = (k \<in> set (sort ks))"
  proof
    assume "\<exists>i. 0 \<le> i \<and> i \<le> int (length (sort ks)) - 1 \<and> sort ks ! nat i = k"
    then obtain i where "0 \<le> i" "i \<le> int (length (sort ks)) - 1" "sort ks ! nat i = k"
      by blast
    then have "nat i < length (sort ks)" "sort ks ! nat i = k" by auto
    then show "k \<in> set (sort ks)" by (metis nth_mem)
  next
    assume "k \<in> set (sort ks)"
    then obtain n where n: "n < length (sort ks)" "sort ks ! n = k"
      by (metis in_set_conv_nth)
    then have "0 \<le> int n \<and> int n \<le> int (length (sort ks)) - 1 \<and> sort ks ! nat (int n) = k"
      by auto
    then show "\<exists>i. 0 \<le> i \<and> i \<le> int (length (sort ks)) - 1 \<and> sort ks ! nat i = k"
      by blast
  qed
  finally show ?thesis by simp
qed

lemma get_contacts_id_cases:
  "get_contacts_id idP contacts =
     (case Map_get contacts idP of
        Some contact \<Rightarrow> ((200, ContactBody contact), contacts)
      | None \<Rightarrow> ((404, Error ''Contact not found''), contacts))"
proof -
  have "(idP \<in> set (Map_keys contacts)) = (Map_get contacts idP \<noteq> None)"
    using Map_has_iff[of contacts idP] by (simp add: Map_has_def Map_get_def)
  then show ?thesis
    unfolding get_contacts_id_def Let_def bsearch_sorted_keys
    by (auto split: option.splits)
qed

text \<open>
  C5. After a successful add of a candidate, the lookup of its id answers with the
  stored record, which is the candidate; the lookup of an id that is no key of the
  store answers 404, and the lookup of a key answers with the record stored under it.
  The binary search over the sorted keys finds an id exactly when it is a key.
\<close>

theorem get_contacts_id_finds_exactly_the_keys:
  "(post_contacts c contacts = ((201, m), contacts') \<longrightarrow>
      (\<exists>i. id' c = Some i
           \<and> get_contacts_id i contacts' = ((200, ContactBody c), contacts')))
   \<and> (\<not> Map_has contacts idP \<longrightarrow>
      get_contacts_id idP contacts = ((404, Error ''Contact not found''), contacts))
   \<and> (Map_has contacts idP \<longrightarrow>
      (\<exists>d. Map_get contacts idP = Some d
           \<and> get_contacts_id idP contacts = ((200, ContactBody d), contacts)))
   \<and> bsearch (sort (Map_keys contacts)) idP 0 (int (length (sort (Map_keys contacts))) - 1)
       = (idP \<in> set (Map_keys contacts))"
proof -
  have 1: "post_contacts c contacts = ((201, m), contacts') \<longrightarrow>
      (\<exists>i. id' c = Some i
           \<and> get_contacts_id i contacts' = ((200, ContactBody c), contacts'))"
  proof
    assume a: "post_contacts c contacts = ((201, m), contacts')"
    from post_contacts_created[OF a] obtain i where i: "id' c = Some i"
      and s: "contacts' = Map_set contacts i c"
      by blast
    have "get_contacts_id i contacts' = ((200, ContactBody c), contacts')"
      by (simp add: get_contacts_id_cases s Map_get_Map_set_same)
    with i show "\<exists>i. id' c = Some i
           \<and> get_contacts_id i contacts' = ((200, ContactBody c), contacts')"
      by blast
  qed
  have 2: "\<not> Map_has contacts idP \<longrightarrow>
      get_contacts_id idP contacts = ((404, Error ''Contact not found''), contacts)"
    by (simp add: get_contacts_id_cases Map_has_def Map_get_def)
  have 3: "Map_has contacts idP \<longrightarrow>
      (\<exists>d. Map_get contacts idP = Some d
           \<and> get_contacts_id idP contacts = ((200, ContactBody d), contacts))"
    by (auto simp: get_contacts_id_cases Map_has_def Map_get_def)
  show ?thesis
    using 1 2 3 bsearch_sorted_keys[of "Map_keys contacts" idP] by blast
qed

text \<open>
  The store holds the contact \<open>" A1"\<close>. Jo, with the id \<open>"A1"\<close>, is not found before
  the add and is found after it; \<open>" A1"\<close> is found.
\<close>

theorem get_contacts_id_finds_exactly_the_keys_witness:
  "post_contacts jo [('' A1'', joSpace)] =
     ((201, Message ''Contact added successfully''), [('' A1'', joSpace), (''A1'', jo)])
   \<and> (\<exists>i. id' jo = Some i
        \<and> get_contacts_id i [('' A1'', joSpace), (''A1'', jo)] =
            ((200, ContactBody jo), [('' A1'', joSpace), (''A1'', jo)]))
   \<and> \<not> Map_has [('' A1'', joSpace)] ''A1''
   \<and> get_contacts_id ''A1'' [('' A1'', joSpace)] =
       ((404, Error ''Contact not found''), [('' A1'', joSpace)])
   \<and> Map_has [('' A1'', joSpace)] '' A1''
   \<and> (\<exists>d. Map_get [('' A1'', joSpace)] '' A1'' = Some d
        \<and> get_contacts_id '' A1'' [('' A1'', joSpace)] =
            ((200, ContactBody d), [('' A1'', joSpace)]))"
proof -
  note T = get_contacts_id_finds_exactly_the_keys[of jo "[('' A1'', joSpace)]"
      "Message ''Contact added successfully''" "[('' A1'', joSpace), (''A1'', jo)]" "''A1''"]
  note U = get_contacts_id_finds_exactly_the_keys[of jo "[('' A1'', joSpace)]"
      "Message ''Contact added successfully''" "[('' A1'', joSpace), (''A1'', jo)]" "'' A1''"]
  have h1: "post_contacts jo [('' A1'', joSpace)] =
     ((201, Message ''Contact added successfully''), [('' A1'', joSpace), (''A1'', jo)])"
    by code_simp
  have h2: "\<not> Map_has [('' A1'', joSpace)] ''A1''"
    by code_simp
  have h3: "Map_has [('' A1'', joSpace)] '' A1''"
    by code_simp
  note e1 = T[THEN conjunct1, THEN mp, OF h1]
  note e2 = T[THEN conjunct2, THEN conjunct1, THEN mp, OF h2]
  note e3 = U[THEN conjunct2, THEN conjunct2, THEN conjunct1, THEN mp, OF h3]
  show ?thesis
    by (rule conjI[OF h1 conjI[OF e1 conjI[OF h2 conjI[OF e2 conjI[OF h3 e3]]]]])
qed

section \<open>The listing\<close>

lemma mset_insertWith: "mset (insertWith cmp x xs) = add_mset x (mset xs)"
  by (induction xs) auto

lemma mset_sortWith: "mset (sortWith cmp xs) = mset xs"
  unfolding sortWith_def by (induction xs) (auto simp: mset_insertWith)

lemma set_sortWith: "set (sortWith cmp xs) = set xs"
  using mset_sortWith[of cmp xs] by (metis set_mset_mset)

lemma set_insertWith: "set (insertWith cmp x xs) = insert x (set xs)"
  by (induction xs) auto

lemma sorted_insertWith:
  assumes tot: "\<And>a b. a \<in> A \<Longrightarrow> b \<in> A \<Longrightarrow> cmp a b \<le> 0 \<or> cmp b a \<le> 0"
    and trans: "\<And>a b c. a \<in> A \<Longrightarrow> b \<in> A \<Longrightarrow> c \<in> A \<Longrightarrow>
                  cmp a b \<le> 0 \<Longrightarrow> cmp b c \<le> 0 \<Longrightarrow> cmp a c \<le> 0"
    and "x \<in> A" and "set xs \<subseteq> A" and "sorted_wrt (\<lambda>a b. cmp a b \<le> 0) xs"
  shows "sorted_wrt (\<lambda>a b. cmp a b \<le> 0) (insertWith cmp x xs)"
  using assms(3-)
proof (induction xs)
  case Nil
  then show ?case by simp
next
  case (Cons y ys)
  show ?case
  proof (cases "cmp x y \<le> 0")
    case True
    have "\<forall>z\<in>set ys. cmp x z \<le> 0"
    proof
      fix z assume z: "z \<in> set ys"
      with Cons.prems have yz: "cmp y z \<le> 0" and zA: "z \<in> A" and yA: "y \<in> A" by auto
      show "cmp x z \<le> 0" by (rule trans[OF Cons.prems(1) yA zA True yz])
    qed
    with True Cons.prems show ?thesis by simp
  next
    case False
    with tot[of x y] Cons.prems have yx: "cmp y x \<le> 0" by auto
    have "sorted_wrt (\<lambda>a b. cmp a b \<le> 0) (insertWith cmp x ys)"
      using Cons by auto
    with False yx Cons.prems show ?thesis by (auto simp: set_insertWith)
  qed
qed

lemma sorted_sortWith:
  assumes tot: "\<And>a b. a \<in> A \<Longrightarrow> b \<in> A \<Longrightarrow> cmp a b \<le> 0 \<or> cmp b a \<le> 0"
    and trans: "\<And>a b c. a \<in> A \<Longrightarrow> b \<in> A \<Longrightarrow> c \<in> A \<Longrightarrow>
                  cmp a b \<le> 0 \<Longrightarrow> cmp b c \<le> 0 \<Longrightarrow> cmp a c \<le> 0"
    and "set xs \<subseteq> A"
  shows "sorted_wrt (\<lambda>a b. cmp a b \<le> 0) (sortWith cmp xs)"
  using assms(3)
proof (induction xs)
  case Nil
  then show ?case by (simp add: sortWith_def)
next
  case (Cons x xs)
  have s: "sortWith cmp (x # xs) = insertWith cmp x (sortWith cmp xs)"
    by (simp add: sortWith_def)
  have "set (sortWith cmp xs) = set xs"
    by (rule set_sortWith)
  then have sub: "set (sortWith cmp xs) \<subseteq> A"
    using Cons.prems by simp
  have xA: "x \<in> A"
    using Cons.prems by simp
  have srt: "sorted_wrt (\<lambda>a b. cmp a b \<le> 0) (sortWith cmp xs)"
    using Cons by simp
  show ?case
    unfolding s by (rule sorted_insertWith[where A = A, OF tot trans xA sub srt])
qed

lemma sorted_wrt_distinct:
  "sorted_wrt P xs \<Longrightarrow> distinct (map f xs) \<Longrightarrow> sorted_wrt (\<lambda>a b. P a b \<and> f a \<noteq> f b) xs"
  by (induction xs) auto

lemma codeUnitCompare_total: "codeUnitCompare x y \<le> 0 \<or> codeUnitCompare y x \<le> 0"
  by (auto simp: codeUnitCompare_def)

lemma codeUnitCompare_trans:
  "codeUnitCompare x y \<le> 0 \<Longrightarrow> codeUnitCompare y z \<le> 0 \<Longrightarrow> codeUnitCompare x z \<le> 0"
  by (auto simp: codeUnitCompare_def split: if_splits)

lemma codeUnitCompare_zero: "\<forall>x y. codeUnitCompare x y = 0 \<longrightarrow> x = y"
  by (auto simp: codeUnitCompare_def split: if_splits)

text \<open>
  C2, as the claim states it, fails: the array-backed server sends its array as it is.
  After the adds of \<open>B2\<close> and \<open>A1\<close>, in this order, the listing is \<open>B2\<close>, \<open>A1\<close>.
\<close>

theorem get_contacts_arr_in_insertion_order:
  "post_contacts_arr b2 [] = ((201, Message ''Contact added successfully''), [b2])
   \<and> post_contacts_arr jo [b2] = ((201, Message ''Contact added successfully''), [b2, jo])
   \<and> get_contacts_arr [b2, jo] = ((200, Contacts [b2, jo]), [b2, jo])
   \<and> \<not> ascendingIds_spec [b2, jo]"
  by code_simp

text \<open>
  C2, amended. The listing of the Map-backed server leaves the store as it is and
  holds every stored contact once, ordered by \<open>localeCompare\<close> on the ids: when the
  collation is total and transitive, the id of each contact compares \<open>\<le> 0\<close> with the
  id of every later one, and \<open>< 0\<close> when the stored ids are distinct and the collation
  gives 0 for equal strings only. Every stored record has an id, and the stored ids are
  distinct, in every store the handlers reach from the empty Map (\<open>keyed_ids\<close>). The
  listing of the array-backed server is the array, in insertion order.
\<close>

theorem get_contacts_sorted_by_localeCompare:
  assumes tot: "\<And>x y. localeCompare x y \<le> 0 \<or> localeCompare y x \<le> 0"
    and trans: "\<And>x y z. localeCompare x y \<le> 0 \<Longrightarrow> localeCompare y z \<le> 0
                  \<Longrightarrow> localeCompare x z \<le> 0"
    and ids: "list_all (\<lambda>c. id' c \<noteq> None) (Map_values contacts)"
  shows "(\<exists>out. get_contacts localeCompare contacts = ((200, Contacts out), contacts)
           \<and> mset out = mset (Map_values contacts)
           \<and> sorted_wrt (\<lambda>a b. compareById localeCompare a b \<le> 0) out
           \<and> (distinct (map id' (Map_values contacts))
                \<and> (\<forall>x y. localeCompare x y = 0 \<longrightarrow> x = y)
               \<longrightarrow> sorted_wrt (\<lambda>a b. compareById localeCompare a b < 0) out))
         \<and> get_contacts_arr cs = ((200, Contacts cs), cs)"
proof -
  let ?out = "sortWith (compareById localeCompare) (Map_values contacts)"
  let ?A = "{c::contact. id' c \<noteq> None}"
  have g: "get_contacts localeCompare contacts = ((200, Contacts ?out), contacts)"
    using ids by (simp add: get_contacts_def)
  have m: "mset ?out = mset (Map_values contacts)"
    by (rule mset_sortWith)
  have sub: "set (Map_values contacts) \<subseteq> ?A"
    using ids by (auto simp: list_all_iff)
  have s: "sorted_wrt (\<lambda>a b. compareById localeCompare a b \<le> 0) ?out"
  proof (rule sorted_sortWith[where A = ?A])
    fix a b :: contact assume "a \<in> ?A" "b \<in> ?A"
    then obtain x y where "id' a = Some x" "id' b = Some y" by auto
    then show "compareById localeCompare a b \<le> 0 \<or> compareById localeCompare b a \<le> 0"
      using tot[of x y] by (simp add: compareById_def)
  next
    fix a b c :: contact
    assume "a \<in> ?A" "b \<in> ?A" "c \<in> ?A"
      "compareById localeCompare a b \<le> 0" "compareById localeCompare b c \<le> 0"
    then obtain x y z where "id' a = Some x" "id' b = Some y" "id' c = Some z"
      "localeCompare x y \<le> 0" "localeCompare y z \<le> 0"
      by (auto simp: compareById_def)
    then show "compareById localeCompare a c \<le> 0"
      using trans[of x y z] by (simp add: compareById_def)
  next
    show "set (Map_values contacts) \<subseteq> ?A" by (rule sub)
  qed
  have strict: "sorted_wrt (\<lambda>a b. compareById localeCompare a b < 0) ?out"
    if d: "distinct (map id' (Map_values contacts))"
      and z: "\<forall>x y. localeCompare x y = 0 \<longrightarrow> x = y"
  proof -
    have "mset (map id' ?out) = mset (map id' (Map_values contacts))"
      using m by (metis mset_map)
    with d have "distinct (map id' ?out)"
      by (metis mset_eq_imp_distinct_iff)
    with s have w: "sorted_wrt (\<lambda>a b. compareById localeCompare a b \<le> 0 \<and> id' a \<noteq> id' b) ?out"
      by (rule sorted_wrt_distinct)
    have o: "set ?out \<subseteq> ?A"
      using sub by (simp add: set_sortWith)
    show ?thesis
    proof (rule sorted_wrt_mono_rel[OF _ w])
      fix a b :: contact
      assume "a \<in> set ?out" "b \<in> set ?out"
        and le: "compareById localeCompare a b \<le> 0 \<and> id' a \<noteq> id' b"
      with o have "a \<in> ?A" "b \<in> ?A" by blast+
      then obtain x y where "id' a = Some x" "id' b = Some y" by auto
      with le z show "compareById localeCompare a b < 0"
        by (auto simp: compareById_def order_less_le)
    qed
  qed
  show ?thesis
    using g m s strict by (auto simp: get_contacts_arr_def)
qed

text \<open>The Map holds \<open>B2\<close> and \<open>A1\<close>, added in this order; the collation compares code units.\<close>

theorem get_contacts_sorted_by_localeCompare_witness:
  "list_all (\<lambda>c. id' c \<noteq> None) (Map_values [(''B2'', b2), (''A1'', jo)])
   \<and> distinct (map id' (Map_values [(''B2'', b2), (''A1'', jo)]))
   \<and> get_contacts codeUnitCompare [(''B2'', b2), (''A1'', jo)] =
       ((200, Contacts [jo, b2]), [(''B2'', b2), (''A1'', jo)])
   \<and> (\<exists>out. get_contacts codeUnitCompare [(''B2'', b2), (''A1'', jo)] =
               ((200, Contacts out), [(''B2'', b2), (''A1'', jo)])
            \<and> mset out = mset (Map_values [(''B2'', b2), (''A1'', jo)])
            \<and> sorted_wrt (\<lambda>a b. compareById codeUnitCompare a b < 0) out)"
proof -
  let ?s = "[(''B2'', b2), (''A1'', jo)]"
  have h1: "list_all (\<lambda>c. id' c \<noteq> None) (Map_values ?s)"
    by code_simp
  have h2: "distinct (map id' (Map_values ?s))"
    by code_simp
  have h3: "get_contacts codeUnitCompare ?s = ((200, Contacts [jo, b2]), ?s)"
    by code_simp
  have "(\<exists>out. get_contacts codeUnitCompare ?s = ((200, Contacts out), ?s)
           \<and> mset out = mset (Map_values ?s)
           \<and> sorted_wrt (\<lambda>a b. compareById codeUnitCompare a b \<le> 0) out
           \<and> (distinct (map id' (Map_values ?s))
                \<and> (\<forall>x y. codeUnitCompare x y = 0 \<longrightarrow> x = y)
               \<longrightarrow> sorted_wrt (\<lambda>a b. compareById codeUnitCompare a b < 0) out))
         \<and> get_contacts_arr [] = ((200, Contacts []), [])"
  proof (rule get_contacts_sorted_by_localeCompare)
    fix x y
    show "codeUnitCompare x y \<le> 0 \<or> codeUnitCompare y x \<le> 0"
      by (rule codeUnitCompare_total)
  next
    fix x y z
    assume "codeUnitCompare x y \<le> 0" "codeUnitCompare y z \<le> 0"
    then show "codeUnitCompare x z \<le> 0"
      by (rule codeUnitCompare_trans)
  next
    show "list_all (\<lambda>c. id' c \<noteq> None) (Map_values ?s)"
      by (rule h1)
  qed
  then obtain out where o: "get_contacts codeUnitCompare ?s = ((200, Contacts out), ?s)"
    "mset out = mset (Map_values ?s)"
    "distinct (map id' (Map_values ?s)) \<and> (\<forall>x y. codeUnitCompare x y = 0 \<longrightarrow> x = y)
       \<longrightarrow> sorted_wrt (\<lambda>a b. compareById codeUnitCompare a b < 0) out"
    by blast
  from o(3) h2 codeUnitCompare_zero
  have "sorted_wrt (\<lambda>a b. compareById codeUnitCompare a b < 0) out"
    by blast
  with o(1,2) have "\<exists>out. get_contacts codeUnitCompare ?s = ((200, Contacts out), ?s)
            \<and> mset out = mset (Map_values ?s)
            \<and> sorted_wrt (\<lambda>a b. compareById codeUnitCompare a b < 0) out"
    by blast
  with h1 h2 h3 show ?thesis
    by (intro conjI)
qed

end
